theory Spec2Isabelle
  imports Main
begin

section \<open>Python strings\<close>

text \<open>
  Strings are lists of ASCII characters. The operations below are the \<open>str\<close> methods
  that \<open>nabib.py\<close> calls: \<open>strip\<close>, \<open>split\<close> on a one-character separator,
  \<open>replace\<close> (a literal, non-overlapping, left-to-right replacement) and \<open>join\<close>.
\<close>

definition is_space :: "char \<Rightarrow> bool" where
  "is_space c = (c \<in> set [CHR '' '', CHR 0x09, CHR 0x0A, CHR 0x0B, CHR 0x0C, CHR 0x0D])"

definition is_digit :: "char \<Rightarrow> bool" where
  "is_digit c = (c \<in> set ''0123456789'')"

definition lstrip :: "string \<Rightarrow> string" where
  "lstrip s = dropWhile is_space s"

definition rstrip :: "string \<Rightarrow> string" where
  "rstrip s = rev (dropWhile is_space (rev s))"

definition strip :: "string \<Rightarrow> string" where
  "strip s = rstrip (lstrip s)"

fun split_on :: "char \<Rightarrow> string \<Rightarrow> string list" where
  "split_on sep [] = [[]]"
| "split_on sep (c # cs) =
     (if c = sep then [] # split_on sep cs
      else (case split_on sep cs of
              [] \<Rightarrow> [[c]]
            | w # ws \<Rightarrow> (c # w) # ws))"

definition startswith :: "string \<Rightarrow> string \<Rightarrow> bool" where
  "startswith s p = (take (length p) s = p)"

function replace :: "string \<Rightarrow> string \<Rightarrow> string \<Rightarrow> string" where
  "replace old new s =
     (if old = [] then s
      else if s = [] then []
      else if startswith s old then new @ replace old new (drop (length old) s)
      else hd s # replace old new (tl s))"
  by pat_completeness auto
termination
  by (relation "measure (\<lambda>(old, new, s). length s)") auto

definition join :: "string \<Rightarrow> string list \<Rightarrow> string" where
  "join sep xs = (case xs of [] \<Rightarrow> [] | y # ys \<Rightarrow> y @ concat (map (\<lambda>z. sep @ z) ys))"

definition lower_char :: "char \<Rightarrow> char" where
  "lower_char c =
     (case map_of (zip ''ABCDEFGHIJKLMNOPQRSTUVWXYZ'' ''abcdefghijklmnopqrstuvwxyz'') c of
        None \<Rightarrow> c
      | Some d \<Rightarrow> d)"

definition lower :: "string \<Rightarrow> string" where
  "lower s = map lower_char s"

text \<open>
  \<open>int(s)\<close> for a string of decimal digits and \<open>str(n)\<close> for a number that is not
  negative.
\<close>

definition digit_val :: "char \<Rightarrow> int" where
  "digit_val c = of_char c - 48"

definition digit_char :: "int \<Rightarrow> char" where
  "digit_char n = ''0123456789'' ! nat n"

definition int_of_digits :: "string \<Rightarrow> int" where
  "int_of_digits ds = foldl (\<lambda>n c. 10 * n + digit_val c) 0 ds"

function str_of_int :: "int \<Rightarrow> string" where
  "str_of_int n =
     (if n < 10 then [digit_char n] else str_of_int (n div 10) @ [digit_char (n mod 10)])"
  by pat_completeness auto
termination
  by (relation "measure nat") auto

text \<open>\<open>str(int(ds))\<close> on a digit string: leading zeros go, one digit at least stays.\<close>

definition str_int :: "string \<Rightarrow> string" where
  "str_int ds = (case dropWhile (\<lambda>c. c = CHR ''0'') ds of [] \<Rightarrow> ''0'' | r \<Rightarrow> r)"

section \<open>Errors\<close>

text \<open>The exceptions the modelled code can raise, as values.\<close>

datatype error =
    InvalidOperation
  | Overflow
  | ValueError
  | AttributeError
  | OverflowError
  | KeyError
  | IndexError

section \<open>The decimal module under the program's context\<close>

text \<open>
  \<open>nabib.py\<close> installs \<open>decimal.Context(prec=2, rounding=ROUND_HALF_DOWN)\<close> as the
  thread's context. A \<open>Decimal\<close> is a sign, a coefficient held as a digit string and an
  exponent, or one of the special values. The traps of the context are the defaults:
  \<open>InvalidOperation\<close>, \<open>DivisionByZero\<close> and \<open>Overflow\<close> raise.
\<close>

datatype decimal =
    Finite bool string int
  | Infinity bool
  | NaN bool string
  | sNaN bool string

definition prec :: int where
  "prec = 2"

definition Emax :: int where
  "Emax = 999999999"

definition Emin :: int where
  "Emin = - 999999999"

definition Etiny :: int where
  "Etiny = Emin - prec + 1"

definition Etop :: int where
  "Etop = Emax - prec + 1"

definition is_zero :: "decimal \<Rightarrow> bool" where
  "is_zero d = (case d of Finite s c e \<Rightarrow> c = ''0'' | _ \<Rightarrow> False)"

subsection \<open>Construction from a string\<close>

text \<open>
  \<open>Decimal.__new__\<close> on a string matches the stripped text against the module's
  number syntax: an optional sign, then digits with an optional fraction and an optional
  exponent, or \<open>Inf\<close>/\<open>Infinity\<close>, or an optionally signalling \<open>NaN\<close> with
  diagnostic digits; letters in any case. A text outside the syntax raises
  \<open>InvalidOperation\<close>. The construction is exact: the context's precision plays no part.
\<close>

definition parse_exponent :: "string \<Rightarrow> int option" where
  "parse_exponent r =
     (case r of
        [] \<Rightarrow> Some 0
      | c # t \<Rightarrow>
          if lower_char c = CHR ''e'' then
            (case t of
               [] \<Rightarrow> None
             | x # u \<Rightarrow>
                 if x = CHR ''-'' then
                   (if u \<noteq> [] \<and> list_all is_digit u then Some (- int_of_digits u) else None)
                 else if x = CHR ''+'' then
                   (if u \<noteq> [] \<and> list_all is_digit u then Some (int_of_digits u) else None)
                 else if list_all is_digit t then Some (int_of_digits t)
                 else None)
          else None)"

definition parse_number :: "bool \<Rightarrow> string \<Rightarrow> decimal option" where
  "parse_number sign r =
     (let intpart = takeWhile is_digit r;
          r1 = dropWhile is_digit r;
          has_frac = (r1 \<noteq> [] \<and> hd r1 = CHR ''.'');
          fracpart = (if has_frac then takeWhile is_digit (tl r1) else []);
          r2 = (if has_frac then dropWhile is_digit (tl r1) else r1)
      in if intpart = [] \<and> fracpart = [] then None
         else (case parse_exponent r2 of
                 None \<Rightarrow> None
               | Some e \<Rightarrow> Some (Finite sign (str_int (intpart @ fracpart)) (e - int (length fracpart)))))"

definition parse_special :: "bool \<Rightarrow> string \<Rightarrow> decimal option" where
  "parse_special sign r =
     (let l = lower r
      in if l = ''inf'' \<or> l = ''infinity'' then Some (Infinity sign)
         else if startswith l ''nan'' \<and> list_all is_digit (drop 3 l)
           then Some (NaN sign (dropWhile (\<lambda>c. c = CHR ''0'') (drop 3 l)))
         else if startswith l ''snan'' \<and> list_all is_digit (drop 4 l)
           then Some (sNaN sign (dropWhile (\<lambda>c. c = CHR ''0'') (drop 4 l)))
         else None)"

definition Decimal_new :: "string \<Rightarrow> error + decimal" where
  "Decimal_new v =
     (let s = strip v;
          sign = (s \<noteq> [] \<and> hd s = CHR ''-'');
          r = (if s \<noteq> [] \<and> (hd s = CHR ''-'' \<or> hd s = CHR ''+'') then tl s else s);
          res = (if r \<noteq> [] \<and> (is_digit (hd r) \<or> hd r = CHR ''.'')
                 then parse_number sign r else parse_special sign r)
      in case res of None \<Rightarrow> Inl InvalidOperation | Some d \<Rightarrow> Inr d)"

subsection \<open>Rounding\<close>

text \<open>
  The rounding functions look at the digits of the coefficient from position \<open>p\<close> on and
  say whether the kept digits go up (\<open>1\<close>), stay exact (\<open>0\<close>) or are truncated (\<open>-1\<close>).
\<close>

definition all_zeros :: "string \<Rightarrow> nat \<Rightarrow> bool" where
  "all_zeros c p = list_all (\<lambda>x. x = CHR ''0'') (drop p c)"

definition exact_half :: "string \<Rightarrow> nat \<Rightarrow> bool" where
  "exact_half c p =
     (case drop p c of [] \<Rightarrow> False | x # r \<Rightarrow> x = CHR ''5'' \<and> list_all (\<lambda>y. y = CHR ''0'') r)"

definition round_half_up :: "string \<Rightarrow> nat \<Rightarrow> int" where
  "round_half_up c p =
     (if p < length c \<and> c ! p \<in> set ''56789'' then 1
      else if all_zeros c p then 0
      else - 1)"

definition round_half_down :: "string \<Rightarrow> nat \<Rightarrow> int" where
  "round_half_down c p = (if exact_half c p then - 1 else round_half_up c p)"

definition coeff_prefix :: "string \<Rightarrow> nat \<Rightarrow> string" where
  "coeff_prefix c p = (if take p c = [] then ''0'' else take p c)"

definition incr_digits :: "string \<Rightarrow> string" where
  "incr_digits c = str_of_int (int_of_digits c + 1)"

definition rescale :: "decimal \<Rightarrow> int \<Rightarrow> decimal" where
  "rescale d ex =
     (case d of
        Finite s c e \<Rightarrow>
          if c = ''0'' then Finite s ''0'' ex
          else if e \<ge> ex then Finite s (c @ replicate (nat (e - ex)) (CHR ''0'')) ex
          else
            (let digits = int (length c) + e - ex;
                 c1 = (if digits < 0 then ''1'' else c);
                 p = (if digits < 0 then 0 else nat digits);
                 changed = round_half_down c1 p;
                 coeff = coeff_prefix c1 p
             in Finite s (if changed = 1 then incr_digits coeff else coeff) ex)
      | _ \<Rightarrow> d)"

definition fix_nan :: "bool \<Rightarrow> string \<Rightarrow> string" where
  "fix_nan s payload =
     (let max_payload_len = nat prec
      in if length payload > max_payload_len
         then dropWhile (\<lambda>c. c = CHR ''0'') (drop (length payload - max_payload_len) payload)
         else payload)"

text \<open>
  \<open>_fix\<close> rounds a result to the context: at most \<open>prec\<close> significant digits, the
  exponent between \<open>Etiny\<close> and \<open>Emax\<close>; a result above \<open>Emax\<close> raises \<open>Overflow\<close>.
\<close>

definition Decimal_fix :: "decimal \<Rightarrow> error + decimal" where
  "Decimal_fix d =
     (case d of
        NaN s p \<Rightarrow> Inr (NaN s (fix_nan s p))
      | sNaN s p \<Rightarrow> Inr (sNaN s (fix_nan s p))
      | Infinity s \<Rightarrow> Inr d
      | Finite s c e \<Rightarrow>
          if c = ''0'' then Inr (Finite s ''0'' (min (max e Etiny) Emax))
          else
            (let exp_min0 = int (length c) + e - prec
             in if exp_min0 > Etop then Inl Overflow
                else
                  (let exp_min = (if exp_min0 < Etiny then Etiny else exp_min0)
                   in if e < exp_min then
                        (let digits = int (length c) + e - exp_min;
                             c1 = (if digits < 0 then ''1'' else c);
                             p = (if digits < 0 then 0 else nat digits);
                             changed = round_half_down c1 p;
                             coeff0 = coeff_prefix c1 p;
                             coeff1 = (if changed > 0 then incr_digits coeff0 else coeff0);
                             carry = (changed > 0 \<and> int (length coeff1) > prec);
                             coeff = (if carry then butlast coeff1 else coeff1);
                             exp_min' = (if carry then exp_min + 1 else exp_min)
                         in if exp_min' > Etop then Inl Overflow
                            else Inr (Finite s coeff exp_min'))
                      else Inr d)))"

subsection \<open>Formatting\<close>

text \<open>
  \<open>Decimal.__format__\<close> for the two format specifications the program uses:
  \<open>'6.2f'\<close> (in \<open>NABNumber.__str__\<close>) and the empty one (a \<open>'{}'\<close> field of
  \<open>str.format\<close>, which calls \<open>__format__\<close> and not \<open>__str__\<close>). The default
  alignment of a number is to the right; the rounding mode is the context's.
\<close>

definition format_sign :: "bool \<Rightarrow> string" where
  "format_sign neg = (if neg then ''-'' else [])"

definition format_align :: "nat \<Rightarrow> string \<Rightarrow> string \<Rightarrow> string" where
  "format_align minimumwidth sign body =
     replicate (minimumwidth - length sign - length body) (CHR '' '') @ sign @ body"

definition special_body :: "decimal \<Rightarrow> string" where
  "special_body d =
     (case d of
        Infinity s \<Rightarrow> ''Infinity''
      | NaN s p \<Rightarrow> ''NaN'' @ p
      | sNaN s p \<Rightarrow> ''sNaN'' @ p
      | Finite s c e \<Rightarrow> c)"

definition int_part :: "string \<Rightarrow> int \<Rightarrow> string" where
  "int_part c dotplace =
     (if dotplace < 0 then ''0''
      else if dotplace > int (length c) then c @ replicate (nat (dotplace - int (length c))) (CHR ''0'')
      else if take (nat dotplace) c = [] then ''0'' else take (nat dotplace) c)"

definition frac_part :: "string \<Rightarrow> int \<Rightarrow> string" where
  "frac_part c dotplace =
     (if dotplace < 0 then replicate (nat (- dotplace)) (CHR ''0'') @ c
      else if dotplace > int (length c) then []
      else drop (nat dotplace) c)"

definition with_point :: "string \<Rightarrow> string" where
  "with_point fracpart = (if fracpart = [] then [] else CHR ''.'' # fracpart)"

definition format_exp :: "int \<Rightarrow> string" where
  "format_exp e =
     (if e = 0 then []
      else CHR ''E'' # (if e < 0 then CHR ''-'' else CHR ''+'') # str_of_int \<bar>e\<bar>)"

definition format_6_2f :: "decimal \<Rightarrow> string" where
  "format_6_2f d =
     (case d of
        Finite s c e \<Rightarrow>
          (case rescale d (- 2) of
             Finite s' c' e' \<Rightarrow>
               (let dotplace = e' + int (length c')
                in format_align 6 (format_sign s')
                     (int_part c' dotplace @ with_point (frac_part c' dotplace)))
           | _ \<Rightarrow> [])
      | Infinity s \<Rightarrow> format_align 6 (format_sign s) (special_body d)
      | NaN s p \<Rightarrow> format_align 6 (format_sign s) (special_body d)
      | sNaN s p \<Rightarrow> format_align 6 (format_sign s) (special_body d))"

definition format_empty :: "decimal \<Rightarrow> string" where
  "format_empty d =
     (case d of
        Finite s c e \<Rightarrow>
          (let leftdigits = e + int (length c);
               dotplace = (if e \<le> 0 \<and> leftdigits > - 6 then leftdigits else 1)
           in format_align 0 (format_sign s)
                (int_part c dotplace @ with_point (frac_part c dotplace)
                   @ format_exp (leftdigits - dotplace)))
      | Infinity s \<Rightarrow> format_align 0 (format_sign s) (special_body d)
      | NaN s p \<Rightarrow> format_align 0 (format_sign s) (special_body d)
      | sNaN s p \<Rightarrow> format_align 0 (format_sign s) (special_body d))"

subsection \<open>Addition\<close>

text \<open>
  \<open>Decimal.__add__\<close> under the context: a signalling NaN raises, a quiet NaN wins,
  infinities of opposite signs raise; finite operands are aligned by \<open>_normalize\<close>,
  added exactly, and the sum is rounded by \<open>_fix\<close> to \<open>prec\<close> significant digits.
\<close>

definition normalize :: "int \<times> int \<Rightarrow> int \<times> int \<Rightarrow> (int \<times> int) \<times> (int \<times> int)" where
  "normalize op1 op2 =
     (let swap = (snd op1 < snd op2);
          tmp = (if swap then op2 else op1);
          other = (if swap then op1 else op2);
          tmp_len = int (length (str_of_int (fst tmp)));
          other_len = int (length (str_of_int (fst other)));
          ex = snd tmp + min (- 1) (tmp_len - prec - 2);
          other' = (if other_len + snd other - 1 < ex then (1, ex) else other);
          tmp' = (fst tmp * 10 ^ nat (snd tmp - snd other'), snd other')
      in if swap then (other', tmp') else (tmp', other'))"

definition add_finite ::
  "bool \<Rightarrow> string \<Rightarrow> int \<Rightarrow> bool \<Rightarrow> string \<Rightarrow> int \<Rightarrow> error + decimal" where
  "add_finite s1 c1 e1 s2 c2 e2 =
     (let ex = min e1 e2
      in if c1 = ''0'' \<and> c2 = ''0'' then Decimal_fix (Finite (s1 \<and> s2) ''0'' ex)
         else if c1 = ''0'' then Decimal_fix (rescale (Finite s2 c2 e2) (max ex (e2 - prec - 1)))
         else if c2 = ''0'' then Decimal_fix (rescale (Finite s1 c1 e1) (max ex (e1 - prec - 1)))
         else
           (let ops = normalize (int_of_digits c1, e1) (int_of_digits c2, e2);
                n1 = fst (fst ops);
                n2 = fst (snd ops);
                rexp = snd (fst ops)
            in if s1 \<noteq> s2 then
                 (if n1 = n2 then Decimal_fix (Finite False ''0'' ex)
                  else if n1 < n2 then Decimal_fix (Finite s2 (str_of_int (n2 - n1)) rexp)
                  else Decimal_fix (Finite s1 (str_of_int (n1 - n2)) rexp))
               else Decimal_fix (Finite s1 (str_of_int (n1 + n2)) rexp)))"

definition Decimal_add :: "decimal \<Rightarrow> decimal \<Rightarrow> error + decimal" where
  "Decimal_add a b =
     (case a of
        sNaN s p \<Rightarrow> Inl InvalidOperation
      | NaN s p \<Rightarrow> (case b of sNaN s' p' \<Rightarrow> Inl InvalidOperation | _ \<Rightarrow> Inr (NaN s (fix_nan s p)))
      | Infinity s1 \<Rightarrow>
          (case b of
             sNaN s' p' \<Rightarrow> Inl InvalidOperation
           | NaN s' p' \<Rightarrow> Inr (NaN s' (fix_nan s' p'))
           | Infinity s2 \<Rightarrow> if s1 \<noteq> s2 then Inl InvalidOperation else Inr (Infinity s1)
           | Finite s2 c2 e2 \<Rightarrow> Inr (Infinity s1))
      | Finite s1 c1 e1 \<Rightarrow>
          (case b of
             sNaN s' p' \<Rightarrow> Inl InvalidOperation
           | NaN s' p' \<Rightarrow> Inr (NaN s' (fix_nan s' p'))
           | Infinity s2 \<Rightarrow> Inr (Infinity s2)
           | Finite s2 c2 e2 \<Rightarrow> add_finite s1 c1 e1 s2 c2 e2))"

text \<open>
  \<open>math.isnan\<close> converts to \<open>float\<close> first: a signalling NaN raises \<open>ValueError\<close>.
\<close>

definition math_isnan :: "decimal \<Rightarrow> error + bool" where
  "math_isnan d =
     (case d of
        NaN s p \<Rightarrow> Inr True
      | sNaN s p \<Rightarrow> Inl ValueError
      | _ \<Rightarrow> Inr False)"

section \<open>NABNumber\<close>

text \<open>
  \<open>NABNumber.__new__\<close> on a text (or \<open>None\<close>): the lines are stripped and joined, the
  characters \<open>+\<close>, \<open>,\<close> and \<open>$\<close> removed, the result split at single spaces into the
  number and the debit/credit marker; \<open>N/A\<close> and the empty text become \<open>NaN\<close>, a
  marker \<open>DR\<close> puts a minus sign in front. The text then goes to \<open>Decimal.__new__\<close>.
  A \<open>Decimal\<close> argument is taken as it is.
\<close>

definition clean_value :: "string option \<Rightarrow> string" where
  "clean_value v =
     (let t = (case v of None \<Rightarrow> ''NaN'' | Some x \<Rightarrow> if x = [] then ''NaN'' else x)
      in strip (filter (\<lambda>c. c \<notin> set ''+,$'') (concat (map strip (split_on (CHR 0x0A) t)))))"

definition convert_value :: "string \<Rightarrow> string" where
  "convert_value v =
     (let parts = split_on (CHR '' '') v @ [[]];
          number = replace ''-minus'' ''-'' (parts ! 0);
          dorc = parts ! 1
      in if v = ''N/A'' \<or> v = [] then ''NaN''
         else (if dorc = ''DR'' then ''-'' else []) @ number)"

definition NABNumber_new :: "string option \<Rightarrow> error + decimal" where
  "NABNumber_new v = Decimal_new (convert_value (clean_value v))"

definition NABNumber_str :: "decimal \<Rightarrow> string" where
  "NABNumber_str d = format_6_2f d"

definition NABNumber_add :: "decimal \<Rightarrow> decimal \<Rightarrow> error + decimal" where
  "NABNumber_add a b = Decimal_add a b"

section \<open>Results that may raise\<close>

definition bind :: "error + 'a \<Rightarrow> ('a \<Rightarrow> error + 'b) \<Rightarrow> error + 'b" where
  "bind m f = (case m of Inl e \<Rightarrow> Inl e | Inr x \<Rightarrow> f x)"

section \<open>Dates\<close>

text \<open>
  \<open>datetime.date\<close>: a year from 1 to 9999, a month and a day, with the proleptic
  Gregorian ordinal (1 January of year 1 is day 1). \<open>ymd_to_ord\<close> and \<open>ord_to_ymd\<close>
  are the conversions of the \<open>datetime\<close> module.
\<close>

record date =
  year :: int
  month :: int
  day :: int

definition MINYEAR :: int where
  "MINYEAR = 1"

definition MAXYEAR :: int where
  "MAXYEAR = 9999"

definition MAXORDINAL :: int where
  "MAXORDINAL = 3652059"

definition is_leap :: "int \<Rightarrow> bool" where
  "is_leap y = (y mod 4 = 0 \<and> (y mod 100 \<noteq> 0 \<or> y mod 400 = 0))"

definition DAYS_IN_MONTH :: "int list" where
  "DAYS_IN_MONTH = [0, 31, 28, 31, 30, 31, 30, 31, 31, 30, 31, 30, 31]"

definition DAYS_BEFORE_MONTH :: "int list" where
  "DAYS_BEFORE_MONTH = [0, 0, 31, 59, 90, 120, 151, 181, 212, 243, 273, 304, 334]"

definition days_in_month :: "int \<Rightarrow> int \<Rightarrow> int" where
  "days_in_month y m = (if m = 2 \<and> is_leap y then 29 else DAYS_IN_MONTH ! nat m)"

definition days_before_month :: "int \<Rightarrow> int \<Rightarrow> int" where
  "days_before_month y m = DAYS_BEFORE_MONTH ! nat m + (if m > 2 \<and> is_leap y then 1 else 0)"

definition days_before_year :: "int \<Rightarrow> int" where
  "days_before_year y = (y - 1) * 365 + (y - 1) div 4 - (y - 1) div 100 + (y - 1) div 400"

definition ymd_to_ord :: "int \<Rightarrow> int \<Rightarrow> int \<Rightarrow> int" where
  "ymd_to_ord y m d = days_before_year y + days_before_month y m + d"

definition ord_to_ymd :: "int \<Rightarrow> date" where
  "ord_to_ymd ordinal =
     (let n = ordinal - 1;
          n400 = n div 146097;
          n = n mod 146097;
          n100 = n div 36524;
          n = n mod 36524;
          n4 = n div 1461;
          n = n mod 1461;
          n1 = n div 365;
          n = n mod 365;
          y = n400 * 400 + 1 + n100 * 100 + n4 * 4 + n1
      in if n1 = 4 \<or> n100 = 4 then \<lparr>year = y - 1, month = 12, day = 31\<rparr>
         else
           (let leapyear = (n1 = 3 \<and> (n4 \<noteq> 24 \<or> n100 = 3));
                m = (n + 50) div 32;
                preceding = DAYS_BEFORE_MONTH ! nat m + (if m > 2 \<and> leapyear then 1 else 0)
            in if preceding > n
               then \<lparr>year = y, month = m - 1,
                      day = n - (preceding - days_in_month y (m - 1)) + 1\<rparr>
               else \<lparr>year = y, month = m, day = n - preceding + 1\<rparr>))"

definition valid_date :: "date \<Rightarrow> bool" where
  "valid_date d =
     (MINYEAR \<le> year d \<and> year d \<le> MAXYEAR \<and> 1 \<le> month d \<and> month d \<le> 12 \<and>
      1 \<le> day d \<and> day d \<le> days_in_month (year d) (month d))"

text \<open>The constructor \<open>date(year, month, day)\<close> raises \<open>ValueError\<close> outside the ranges.\<close>

definition date_new :: "int \<Rightarrow> int \<Rightarrow> int \<Rightarrow> error + date" where
  "date_new y m d =
     (if valid_date \<lparr>year = y, month = m, day = d\<rparr>
      then Inr \<lparr>year = y, month = m, day = d\<rparr> else Inl ValueError)"

definition toordinal :: "date \<Rightarrow> int" where
  "toordinal d = ymd_to_ord (year d) (month d) (day d)"

definition fromordinal :: "int \<Rightarrow> error + date" where
  "fromordinal n = (if n < 1 \<or> n > MAXORDINAL then Inl ValueError else Inr (ord_to_ymd n))"

text \<open>
  \<open>date + timedelta(days=k)\<close> (and \<open>date - timedelta(days=k)\<close> with \<open>- k\<close>):
  \<open>OverflowError\<close> when the result leaves the range of dates.
\<close>

definition date_add_days :: "date \<Rightarrow> int \<Rightarrow> error + date" where
  "date_add_days d k =
     (let ordinal = toordinal d + k
      in if ordinal < 1 \<or> ordinal > MAXORDINAL then Inl OverflowError else Inr (ord_to_ymd ordinal))"

definition date_less :: "date \<Rightarrow> date \<Rightarrow> bool" where
  "date_less a b =
     (year a < year b \<or> (year a = year b \<and> (month a < month b \<or> (month a = month b \<and> day a < day b))))"

subsection \<open>MonthDate\<close>

definition month_start :: "date \<Rightarrow> error + date" where
  "month_start d = date_new (year d) (month d) 1"

definition month_end_prev :: "date \<Rightarrow> error + date" where
  "month_end_prev d =
     bind (month_start d) (\<lambda>ms.
     bind (date_add_days ms (- 1)) (\<lambda>p.
     fromordinal (toordinal p)))"

definition month_prev :: "date \<Rightarrow> error + date" where
  "month_prev d =
     bind (month_start d) (\<lambda>ms.
     bind (date_add_days ms (- 1)) (\<lambda>p.
     bind (fromordinal (toordinal p)) month_start))"

definition month_next :: "date \<Rightarrow> error + date" where
  "month_next d =
     bind (month_start d) (\<lambda>ms.
     bind (date_add_days ms 31) (\<lambda>p.
     bind (fromordinal (toordinal p)) month_start))"

definition month_end :: "date \<Rightarrow> error + date" where
  "month_end d = bind (month_next d) month_end_prev"

subsection \<open>Auxiliary definitions for the calendar proofs\<close>

text \<open>
  The month and day that \<open>ord_to_ymd\<close> computes from the day of the year, and the two
  dates the month properties are stated with.
\<close>

definition month_day :: "int \<Rightarrow> bool \<Rightarrow> int \<Rightarrow> date" where
  "month_day y leapyear n =
           (let m = (n + 50) div 32;
                preceding = DAYS_BEFORE_MONTH ! nat m + (if m > 2 \<and> leapyear then 1 else 0)
            in if preceding > n
               then \<lparr>year = y, month = m - 1,
                      day = n - (preceding - days_in_month y (m - 1)) + 1\<rparr>
               else \<lparr>year = y, month = m, day = n - preceding + 1\<rparr>)"

definition last_of_prev_month :: "date \<Rightarrow> date" where
  "last_of_prev_month d =
     (if month d = 1 then \<lparr>year = year d - 1, month = 12, day = 31\<rparr>
      else \<lparr>year = year d, month = month d - 1, day = days_in_month (year d) (month d - 1)\<rparr>)"

definition first_of_next_month :: "date \<Rightarrow> date" where
  "first_of_next_month d =
     (if month d = 12 then \<lparr>year = year d + 1, month = 1, day = 1\<rparr>
      else \<lparr>year = year d, month = month d + 1, day = 1\<rparr>)"

subsection \<open>strptime\<close>

text \<open>
  \<open>MonthDate.strptime(value, '%d %b %y')\<close>: a day of the month (the alternatives of the
  directive \<open>%d\<close> in their order), white space, an abbreviated English month name in
  any case, white space, two digits of the year, and nothing after them. Years up to 68
  are in the 2000s, the others in the 1900s. A text outside this shape, or a day the
  month does not have, raises \<open>ValueError\<close>.
\<close>

definition parse_day :: "string \<Rightarrow> (int \<times> string) option" where
  "parse_day s =
     (case s of
        [] \<Rightarrow> None
      | c # r \<Rightarrow>
          if c = CHR ''3'' \<and> r \<noteq> [] \<and> hd r \<in> set ''01''
            then Some (int_of_digits [c, hd r], tl r)
          else if c \<in> set ''12'' \<and> r \<noteq> [] \<and> is_digit (hd r)
            then Some (int_of_digits [c, hd r], tl r)
          else if c = CHR ''0'' \<and> r \<noteq> [] \<and> hd r \<in> set ''123456789''
            then Some (int_of_digits [c, hd r], tl r)
          else if c \<in> set ''123456789'' then Some (int_of_digits [c], r)
          else if c = CHR '' '' \<and> r \<noteq> [] \<and> hd r \<in> set ''123456789''
            then Some (int_of_digits [hd r], tl r)
          else None)"

definition month_names :: "string list" where
  "month_names = [''jan'', ''feb'', ''mar'', ''apr'', ''may'', ''jun'',
                  ''jul'', ''aug'', ''sep'', ''oct'', ''nov'', ''dec'']"

fun index_of :: "'a \<Rightarrow> 'a list \<Rightarrow> nat option" where
  "index_of x [] = None"
| "index_of x (y # ys) = (if x = y then Some 0 else map_option Suc (index_of x ys))"

definition strptime :: "string \<Rightarrow> error + date" where
  "strptime s =
     (case parse_day s of
        None \<Rightarrow> Inl ValueError
      | Some (d, r1) \<Rightarrow>
          (let r2 = dropWhile is_space r1 in
           if r2 = r1 then Inl ValueError
           else
             (case index_of (lower (take 3 r2)) month_names of
                None \<Rightarrow> Inl ValueError
              | Some i \<Rightarrow>
                  (let r3 = drop 3 r2; r4 = dropWhile is_space r3 in
                   if r4 = r3 then Inl ValueError
                   else if length r4 = 2 \<and> list_all is_digit r4 then
                     (let y = int_of_digits r4;
                          full = (if y \<le> 68 then y + 2000 else y + 1900)
                      in bind (date_new full (int i + 1) d) (\<lambda>t. fromordinal (toordinal t)))
                   else Inl ValueError))))"

text \<open>\<open>str(date)\<close>: the ISO form \<open>YYYY-MM-DD\<close>.\<close>

definition zfill :: "nat \<Rightarrow> string \<Rightarrow> string" where
  "zfill n s = replicate (n - length s) (CHR ''0'') @ s"

definition date_str :: "date \<Rightarrow> string" where
  "date_str d =
     zfill 4 (str_of_int (year d)) @ ''-'' @ zfill 2 (str_of_int (month d))
       @ ''-'' @ zfill 2 (str_of_int (day d))"

section \<open>textwrap.dedent\<close>

text \<open>
  Lines of blanks only become empty; the margin is the longest run of blanks that all
  the other non-empty lines start with; the margin is taken off every line that starts
  with it.
\<close>

definition blank_char :: "char \<Rightarrow> bool" where
  "blank_char c = (c = CHR '' '' \<or> c = CHR 0x09)"

fun common_prefix :: "string \<Rightarrow> string \<Rightarrow> string" where
  "common_prefix (x # xs) (y # ys) = (if x = y then x # common_prefix xs ys else [])"
| "common_prefix xs ys = []"

definition margin_step :: "string option \<Rightarrow> string \<Rightarrow> string option" where
  "margin_step margin indent =
     (case margin of
        None \<Rightarrow> Some indent
      | Some m \<Rightarrow>
          if startswith indent m then Some m
          else if startswith m indent then Some indent
          else Some (common_prefix m indent))"

definition dedent :: "string \<Rightarrow> string" where
  "dedent text =
     (let ls = map (\<lambda>l. if list_all blank_char l then [] else l) (split_on (CHR 0x0A) text);
          indents = map (takeWhile blank_char) (filter (\<lambda>l. dropWhile blank_char l \<noteq> []) ls);
          margin = (case foldl margin_step None indents of None \<Rightarrow> [] | Some m \<Rightarrow> m)
      in join [CHR 0x0A]
           (map (\<lambda>l. if margin \<noteq> [] \<and> startswith l margin then drop (length margin) l else l) ls))"

section \<open>Transaction\<close>

record transaction =
  t_date :: date
  t_type :: string
  t_reference :: "string option"
  t_payee :: "string option"
  t_memo :: string
  t_amount :: decimal
  t_category :: string
  t_balance :: decimal

text \<open>A \<open>'{}'\<close> field of \<open>str.format\<close> for a value that may be \<open>None\<close>.\<close>

definition format_opt :: "string option \<Rightarrow> string" where
  "format_opt v = (case v of None \<Rightarrow> ''None'' | Some s \<Rightarrow> s)"

definition indent12 :: string where
  "indent12 = replicate 12 (CHR '' '')"

text \<open>
  \<open>Transaction.qif\<close>: the template is filled in first and dedented after; the amount
  line takes \<open>str(self.amount).strip()\<close>.
\<close>

definition Transaction_qif :: "transaction \<Rightarrow> string" where
  "Transaction_qif t =
     dedent (indent12 @ ''D'' @ date_str (t_date t) @ [CHR 0x0A]
       @ indent12 @ ''T'' @ strip (NABNumber_str (t_amount t)) @ [CHR 0x0A]
       @ indent12 @ ''M'' @ t_memo t @ [CHR 0x0A]
       @ indent12 @ ''N'' @ t_type t @ [CHR 0x0A]
       @ indent12 @ ''P'' @ format_opt (t_payee t) @ [CHR 0x0A]
       @ indent12 @ ''L'' @ t_category t @ [CHR 0x0A]
       @ indent12 @ ''^'' @ [CHR 0x0A]
       @ indent12)"

text \<open>
  \<open>Transaction.__str__\<close>: every field goes through a \<open>'{}'\<close> field, the amount with
  the empty format specification.
\<close>

definition Transaction_str :: "transaction \<Rightarrow> string" where
  "Transaction_str t =
     join ''|'' [date_str (t_date t), format_empty (t_amount t), t_memo t, t_type t,
                 format_opt (t_payee t), t_category t]"

text \<open>
  \<open>Transaction.csv\<close>: the line ends of the template are escaped, so the template is one
  line and the indentation of its later lines stays between the fields.
\<close>

definition Transaction_csv :: "transaction \<Rightarrow> string" where
  "Transaction_csv t =
     dedent (indent12 @ date_str (t_date t) @ '',''
       @ indent12 @ strip (NABNumber_str (t_amount t)) @ '',''
       @ indent12 @ t_memo t @ '',''
       @ indent12 @ t_type t @ '',''
       @ indent12 @ format_opt (t_payee t) @ '',''
       @ indent12 @ t_category t
       @ indent12)"

section \<open>Account\<close>

text \<open>
  The fields of an \<open>Account\<close>. \<open>transactions\<close> holds what \<open>process_row\<close> returned for
  each row, \<open>None\<close> included. \<open>current_balance\<close> is the constructor's
  \<open>opening_balance\<close>; its default, the float \<open>0.0\<close>, is the decimal \<open>0.0\<close> here,
  which prints the same.
\<close>

record account =
  a_type :: string
  bsb :: "string option"
  number :: string
  nick_name :: string
  current_balance :: decimal
  available_balance :: decimal
  at_date :: date
  closing_balance :: decimal
  closing_balance_date :: date
  transactions :: "transaction option list"
  var_names :: "string list"

definition zero_amount :: decimal where
  "zero_amount = Finite False ''0'' (- 2)"

text \<open>
  \<open>Account.__init__\<close>, after the split of the account number into BSB and number:
  the closing balance starts at \<open>NABNumber('0.00')\<close>, the closing date at the day of
  construction, the transactions empty.
\<close>

definition Account_init ::
  "string \<Rightarrow> string option \<Rightarrow> string \<Rightarrow> string \<Rightarrow> decimal \<Rightarrow> decimal option \<Rightarrow> date \<Rightarrow> date \<Rightarrow> account" where
  "Account_init trans_type b num nick opening_balance avail at today =
     \<lparr>a_type = trans_type, bsb = b, number = num, nick_name = nick,
      current_balance = opening_balance,
      available_balance = (case avail of None \<Rightarrow> opening_balance | Some v \<Rightarrow> v),
      at_date = at,
      closing_balance = zero_amount,
      closing_balance_date = today,
      transactions = [],
      var_names = [''date'', ''details'', ''debit'', ''credit'', ''balance'']\<rparr>"

definition acct_type_map :: "(string \<times> string) list" where
  "acct_type_map =
     [(''DDA'', ''Bank''), (''SDA'', ''Bank''), (''VCD'', ''CCard''),
      (''transaction-account'', ''Bank''), (''credit-card'', ''CCard'')]"

definition acct_type :: "string \<Rightarrow> string" where
  "acct_type t = (case map_of acct_type_map t of None \<Rightarrow> ''Bank'' | Some v \<Rightarrow> v)"

subsection \<open>Category rules\<close>

text \<open>
  \<open>Account.payee_category_map\<close>: a dictionary filled from the account's own rule file
  and then from the shared one, each read when it exists; a line is stripped, skipped
  when empty, and split at \<open>|\<close> into exactly a pattern and a category. The dictionary
  is an association list with one entry per key; an assignment to a key that is there
  replaces its value. A file system is a map from file names to the lines of the file.
\<close>

definition dict_set :: "'k \<Rightarrow> 'v \<Rightarrow> ('k \<times> 'v) list \<Rightarrow> ('k \<times> 'v) list" where
  "dict_set k v al =
     (if k \<in> set (map fst al) then map (\<lambda>(k', v'). if k' = k then (k', v) else (k', v')) al
      else al @ [(k, v)])"

fun load_rules :: "(string \<times> string) list \<Rightarrow> string list \<Rightarrow> error + (string \<times> string) list" where
  "load_rules m [] = Inr m"
| "load_rules m (line # ls) =
     (if strip line = [] then load_rules m ls
      else (case split_on (CHR ''|'') (strip line) of
              [payee, category] \<Rightarrow> load_rules (dict_set payee category m) ls
            | _ \<Rightarrow> Inl ValueError))"

definition rule_files :: "string \<Rightarrow> string list" where
  "rule_files nick = [''PayeeCategories-'' @ nick @ ''.txt'', ''PayeeCategories.txt'']"

fun load_files ::
  "(string \<Rightarrow> string list option) \<Rightarrow> (string \<times> string) list \<Rightarrow> string list \<Rightarrow> error + (string \<times> string) list" where
  "load_files fs m [] = Inr m"
| "load_files fs m (f # rest) =
     (case fs f of
        None \<Rightarrow> load_files fs m rest
      | Some ls \<Rightarrow> bind (load_rules m ls) (\<lambda>m'. load_files fs m' rest))"

definition payee_category_map ::
  "(string \<Rightarrow> string list option) \<Rightarrow> string \<Rightarrow> error + (string \<times> string) list" where
  "payee_category_map fs nick = load_files fs [] (rule_files nick)"

text \<open>
  The categorisation loop of \<open>process_row\<close>. \<open>rx_match re_key field\<close> stands for
  \<open>re.match('^.*' + re_key + '.*', field, re.IGNORECASE)\<close>; \<open>items\<close> is the
  dictionary's \<open>items()\<close> in the order the iteration gives them.
\<close>

fun first_match :: "(string \<Rightarrow> string \<Rightarrow> bool) \<Rightarrow> (string \<times> string) list \<Rightarrow> string \<Rightarrow> string option" where
  "first_match rx_match [] field = None"
| "first_match rx_match ((re_key, v) # rest) field =
     (if rx_match re_key field then Some v else first_match rx_match rest field)"

fun categorise ::
  "(string \<Rightarrow> string \<Rightarrow> bool) \<Rightarrow> (string \<times> string) list \<Rightarrow> string list \<Rightarrow> string option" where
  "categorise rx_match items [] = None"
| "categorise rx_match items (field # others) =
     (case first_match rx_match items field of
        Some v \<Rightarrow> Some v
      | None \<Rightarrow> categorise rx_match items others)"

text \<open>
  What the regular expression does for a pattern without special characters: the
  pattern occurs in the first line of the field, letters compared without case.
\<close>

fun contains :: "string \<Rightarrow> string \<Rightarrow> bool" where
  "contains [] key = (key = [])"
| "contains (c # cs) key = (startswith (c # cs) key \<or> contains cs key)"

definition rx_literal :: "string \<Rightarrow> string \<Rightarrow> bool" where
  "rx_literal re_key field =
     contains (lower (takeWhile (\<lambda>c. c \<noteq> CHR 0x0A) field)) (lower re_key)"

subsection \<open>Rows\<close>

text \<open>
  What the browser session gives for one row of the transaction table: the cells of the
  row, and the texts of the elements \<open>process_row\<close> looks up in them; a text is
  \<open>None\<close> where the lookup finds no element.
\<close>

record raw_row =
  cells :: "string list"
  date_text :: string
  narrative :: string
  trans_code :: string
  debit_text :: "string option"
  credit_text :: "string option"
  balance_prefix :: "string option"
  balance_text :: string

text \<open>\<open>re.split(r'   *', text, 1)\<close>: one split, at the first run of two or more spaces.\<close>

fun split_run :: "string \<Rightarrow> (string \<times> string) option" where
  "split_run (c # d # cs) =
     (if c = CHR '' '' \<and> d = CHR '' '' then Some ([], dropWhile (\<lambda>x. x = CHR '' '') cs)
      else map_option (\<lambda>(a, b). (c # a, b)) (split_run (d # cs)))"
| "split_run cs = None"

definition re_split_spaces :: "string \<Rightarrow> string list" where
  "re_split_spaces s = (case split_run s of None \<Rightarrow> [s] | Some (a, b) \<Rightarrow> [a, b])"

text \<open>
  The assignment \<open>values['location'], values['memo'] = list(reversed(...)) + ['']\<close>
  unpacks a list into two names, and raises \<open>ValueError\<close> when the list has another
  length. The result is the pair (location, memo).
\<close>

definition split_details :: "string \<Rightarrow> error + (string \<times> string)" where
  "split_details text =
     (let lst = rev (re_split_spaces (strip text)) @ [[]]
      in if length lst \<noteq> 2 then Inl ValueError
         else (let location = lst ! 0; memo = lst ! 1
               in if memo = [] then Inr ([], location) else Inr (location, memo)))"

text \<open>\<open>str.replace\<close> takes its first argument as a literal text, not as a pattern.\<close>

definition payee_of_memo :: "string \<Rightarrow> string option" where
  "payee_of_memo memo =
     (if memo = [] then None
      else Some (replace ''^FEES *'' []
                  (replace ''^INTERNET TRANSFER *'' []
                    (replace ''^INTERNET BPAY *'' []
                      (replace ''^.*[0-9][0-9]:[0-9][0-9] '' [] memo)))))"

definition debit_value :: "string option \<Rightarrow> error + decimal" where
  "debit_value x =
     NABNumber_new (Some ((if x = None \<or> x = Some [] then [] else ''-'')
                          @ (case x of None \<Rightarrow> ''NaN'' | Some t \<Rightarrow> if t = [] then ''NaN'' else t)))"

definition net_amount :: "decimal \<Rightarrow> decimal \<Rightarrow> error + decimal" where
  "net_amount credit debit =
     bind (math_isnan credit) (\<lambda>cn.
     bind (math_isnan debit) (\<lambda>dn.
     Inr (if \<not> dn then debit else if \<not> cn then credit else zero_amount)))"

text \<open>
  \<open>process_row\<close>: \<open>None\<close> for a row with fewer cells than \<open>var_names\<close>, a
  \<open>Transaction\<close> otherwise. \<open>rx_sub prefix text\<close> stands for
  \<open>re.sub(prefix, '', text)\<close>, which leaves the text as it is for the empty prefix.
\<close>

definition process_row ::
  "(string \<Rightarrow> string \<Rightarrow> bool) \<Rightarrow> (string \<Rightarrow> string \<Rightarrow> string) \<Rightarrow> (string \<times> string) list \<Rightarrow>
   string list \<Rightarrow> raw_row \<Rightarrow> error + transaction option" where
  "process_row rx_match rx_sub items names row =
     (if length (cells row) < length names then Inr None
      else
        bind (split_details (narrative row)) (\<lambda>(location, memo).
        bind (debit_value (debit_text row)) (\<lambda>debit.
        bind (NABNumber_new (credit_text row)) (\<lambda>credit.
        bind (if ''balance'' \<in> set names then Inr () else Inl KeyError) (\<lambda>_.
        bind (NABNumber_new (Some
               (case balance_prefix row of
                  None \<Rightarrow> balance_text row
                | Some p \<Rightarrow> if p = [] then balance_text row else rx_sub p (balance_text row)))) (\<lambda>bal.
        bind (net_amount credit debit) (\<lambda>amt.
        (let payee = payee_of_memo memo;
             category = (case categorise rx_match items [case payee of None \<Rightarrow> [] | Some p \<Rightarrow> p, memo] of
                           None \<Rightarrow> ''Unspecified''
                         | Some v \<Rightarrow> v)
         in bind (strptime (date_text row)) (\<lambda>d.
            Inr (Some \<lparr>t_date = d, t_type = trans_code row, t_reference = None,
                       t_payee = payee, t_memo = memo, t_amount = amt,
                       t_category = category, t_balance = bal\<rparr>))))))))))"

fun process_rows ::
  "(raw_row \<Rightarrow> error + transaction option) \<Rightarrow> raw_row list \<Rightarrow> error + transaction option list" where
  "process_rows f [] = Inr []"
| "process_rows f (r # rs) =
     bind (f r) (\<lambda>t. bind (process_rows f rs) (\<lambda>ts. Inr (t # ts)))"

subsection \<open>Extraction\<close>

text \<open>
  \<open>Account.download_transactions\<close> on the rows the session returns. \<open>alert\<close> says
  whether the page raised the alert \<open>error 302033\<close>, which drops the last of
  \<open>var_names\<close>. With no row the method returns zero at once. Otherwise the processed
  rows are reversed, and the closing balance and date come from the last element, with
  \<open>NABNumber('0.00')\<close> and \<open>end_date\<close> as the defaults of \<open>getattr\<close>. The result is
  the account after the call and the value returned.
\<close>

definition download_transactions ::
  "(string \<Rightarrow> string \<Rightarrow> bool) \<Rightarrow> (string \<Rightarrow> string \<Rightarrow> string) \<Rightarrow> (string \<times> string) list \<Rightarrow>
   account \<Rightarrow> bool \<Rightarrow> raw_row list \<Rightarrow> date \<Rightarrow> error + (account \<times> decimal)" where
  "download_transactions rx_match rx_sub items acct alert rows end_date =
     (if alert \<and> var_names acct = [] then Inl IndexError
      else
        (let acct1 = (if alert then acct\<lparr>var_names := butlast (var_names acct)\<rparr> else acct)
         in if rows = [] then Inr (acct1, zero_amount)
            else
              bind (process_rows (process_row rx_match rx_sub items (var_names acct1)) rows) (\<lambda>ts.
              (let trs = rev ts;
                   lst = (if trs = [] then None else last trs);
                   cb = (case lst of None \<Rightarrow> zero_amount | Some t \<Rightarrow> t_balance t);
                   cbd = (case lst of None \<Rightarrow> end_date | Some t \<Rightarrow> t_date t)
               in Inr (acct1\<lparr>transactions := trs, closing_balance := cb,
                                closing_balance_date := cbd\<rparr>, cb)))))"

subsection \<open>Export\<close>

text \<open>
  The loop of \<open>Account.qif\<close> over the transactions: it reads \<open>trans.qif\<close>,
  \<open>trans.balance\<close> and \<open>trans.date\<close>, so an element \<open>None\<close> raises
  \<open>AttributeError\<close>. The state is the text so far, the closing balance and its date.
\<close>

fun qif_loop ::
  "transaction option list \<Rightarrow> string \<times> decimal \<times> date \<Rightarrow> error + (string \<times> decimal \<times> date)" where
  "qif_loop [] st = Inr st"
| "qif_loop (None # ts) st = Inl AttributeError"
| "qif_loop (Some t # ts) (s, cb, cbd) = qif_loop ts (s @ Transaction_qif t, t_balance t, t_date t)"

text \<open>
  \<open>Account.qif\<close>: the closing balance and date are set to the current balance and
  \<open>at_date\<close>, then to those of each transaction in turn; the closing balance line
  prints \<open>0.00\<close> for a NaN and the balance through a \<open>'{}'\<close> field otherwise. The
  result is the account after the call and the text.
\<close>

definition Account_qif :: "account \<Rightarrow> error + (account \<times> string)" where
  "Account_qif acct =
     (let head = dedent (indent12 @ ''!Account'' @ [CHR 0x0A]
                   @ indent12 @ ''N'' @ (case bsb acct of None \<Rightarrow> [] | Some b \<Rightarrow> b @ '' '')
                       @ number acct @ [CHR 0x0A]
                   @ indent12 @ ''T'' @ acct_type (a_type acct) @ [CHR 0x0A]
                   @ indent12)
      in bind (qif_loop (transactions acct) ([], current_balance acct, at_date acct)) (\<lambda>(body, cb, cbd).
         bind (math_isnan cb) (\<lambda>nan.
         Inr (acct\<lparr>closing_balance := cb, closing_balance_date := cbd\<rparr>,
              head
              @ dedent (indent12 @ ''$'' @ (if nan then ''0.00'' else format_empty cb) @ [CHR 0x0A]
                  @ indent12 @ ''/'' @ date_str cbd @ [CHR 0x0A]
                  @ indent12 @ ''^'' @ [CHR 0x0A]
                  @ indent12 @ ''!Type:'' @ acct_type (a_type acct) @ [CHR 0x0A]
                  @ indent12)
              @ body))))"

text \<open>
  \<open>Account.generate_qif\<close>: the extraction, then the export written to the file. The
  result is the account, the text of the file and the closing balance returned.
\<close>

definition generate_qif ::
  "(string \<Rightarrow> string \<Rightarrow> bool) \<Rightarrow> (string \<Rightarrow> string \<Rightarrow> string) \<Rightarrow> (string \<times> string) list \<Rightarrow>
   account \<Rightarrow> bool \<Rightarrow> raw_row list \<Rightarrow> date \<Rightarrow> error + (account \<times> string \<times> decimal)" where
  "generate_qif rx_match rx_sub items acct alert rows end_date =
     bind (download_transactions rx_match rx_sub items acct alert rows end_date) (\<lambda>(acct1, cb).
     bind (Account_qif acct1) (\<lambda>(acct2, text). Inr (acct2, text, cb)))"

section \<open>Auxiliary definitions for the statements about amounts\<close>

text \<open>
  The textual amounts the round trip is stated for: an optional minus sign, digits with
  the separators \<open>+\<close>, \<open>,\<close> and \<open>$\<close> among them, a point, two digits, and an
  optional marker \<open>CR\<close> or \<open>DR\<close> after one space. Their canonical two-decimal form
  is the sign, the digits without leading zeros, the point and the two digits.
  \<open>rjust\<close> is \<open>str.rjust\<close> with spaces.
\<close>

datatype marker = NoMarker | CR | DR

definition marker_text :: "marker \<Rightarrow> string" where
  "marker_text mk = (case mk of NoMarker \<Rightarrow> [] | CR \<Rightarrow> '' CR'' | DR \<Rightarrow> '' DR'')"

definition amount_text :: "bool \<Rightarrow> string \<Rightarrow> char \<Rightarrow> char \<Rightarrow> marker \<Rightarrow> string" where
  "amount_text lead w d1 d2 mk =
     (if lead then ''-'' else []) @ w @ ''.'' @ [d1, d2] @ marker_text mk"

definition canonical_amount :: "bool \<Rightarrow> string \<Rightarrow> char \<Rightarrow> char \<Rightarrow> string" where
  "canonical_amount neg ds d1 d2 = (if neg then ''-'' else []) @ str_int ds @ ''.'' @ [d1, d2]"

definition rjust :: "nat \<Rightarrow> string \<Rightarrow> string" where
  "rjust n s = replicate (n - length s) (CHR '' '') @ s"

text \<open>
  The decimals that \<open>Decimal\<close> builds: the coefficient of a finite number is a
  non-empty string of digits, the payload of a NaN a string of digits.
\<close>

definition wf_decimal :: "decimal \<Rightarrow> bool" where
  "wf_decimal d =
     (case d of
        Finite s c e \<Rightarrow> c \<noteq> [] \<and> list_all is_digit c
      | Infinity s \<Rightarrow> True
      | NaN s p \<Rightarrow> list_all is_digit p
      | sNaN s p \<Rightarrow> list_all is_digit p)"

section \<open>Auxiliary definitions for the statements about category rules\<close>

text \<open>
  The lines of a rule file (none when the file is absent) and, in \<open>parsed_rules\<close>,
  the rules written on them. \<open>rules_of_one_file\<close> is the reading of the specification, for comparison:
  the account's own file when it exists, the shared file only when it does not.
\<close>

definition file_lines :: "(string \<Rightarrow> string list option) \<Rightarrow> string \<Rightarrow> string list" where
  "file_lines fs f = (case fs f of None \<Rightarrow> [] | Some ls \<Rightarrow> ls)"

definition rules_of_one_file ::
  "(string \<Rightarrow> string list option) \<Rightarrow> string \<Rightarrow> error + (string \<times> string) list" where
  "rules_of_one_file fs nick =
     (case fs (''PayeeCategories-'' @ nick @ ''.txt'') of
        Some ls \<Rightarrow> load_rules [] ls
      | None \<Rightarrow> (case fs ''PayeeCategories.txt'' of Some ls \<Rightarrow> load_rules [] ls | None \<Rightarrow> Inr []))"

definition parsed_rules :: "string list \<Rightarrow> (string \<times> string) list" where
  "parsed_rules ls =
     map (\<lambda>l. (split_on (CHR ''|'') (strip l) ! 0, split_on (CHR ''|'') (strip l) ! 1))
       (filter (\<lambda>l. strip l \<noteq> []) ls)"

section \<open>Example data\<close>

text \<open>
  An account made on 3 February 2024 for the period that ends on 31 January 2024, the
  two rows of the example in the specification (newest first), a row with one cell, a
  row of 5.00, and a file system with both rule files.
\<close>

definition ex_end_date :: date where
  "ex_end_date = \<lparr>year = 2024, month = 1, day = 31\<rparr>"

definition ex_today :: date where
  "ex_today = \<lparr>year = 2024, month = 2, day = 3\<rparr>"

definition ex_account :: account where
  "ex_account =
     Account_init ''DDA'' (Some ''083-001'') ''123456789'' ''acc'' (Finite False ''0'' (- 1)) None
       ex_end_date ex_today"

definition ex_row_debit :: raw_row where
  "ex_row_debit =
     \<lparr>cells = [''15 Jan 24'', ''COFFEE SHOP'', ''50.00'', '''', ''100.00''],
      date_text = ''15 Jan 24'', narrative = ''COFFEE SHOP'', trans_code = ''EFTPOS'',
      debit_text = Some ''50.00'', credit_text = Some [], balance_prefix = None,
      balance_text = ''100.00''\<rparr>"

definition ex_row_credit :: raw_row where
  "ex_row_credit =
     \<lparr>cells = [''10 Jan 24'', ''SALARY'', '''', ''200.00'', ''150.00''],
      date_text = ''10 Jan 24'', narrative = ''SALARY'', trans_code = ''CREDIT'',
      debit_text = Some [], credit_text = Some ''200.00'', balance_prefix = None,
      balance_text = ''150.00''\<rparr>"

definition ex_row_short :: raw_row where
  "ex_row_short = ex_row_debit\<lparr>cells := [''No transactions'']\<rparr>"

definition ex_row_five :: raw_row where
  "ex_row_five =
     \<lparr>cells = [''05 Jan 24'', ''TEA HOUSE'', '''', ''5.00'', ''5.00''],
      date_text = ''05 Jan 24'', narrative = ''TEA HOUSE'', trans_code = ''CREDIT'',
      debit_text = None, credit_text = Some ''5.00'', balance_prefix = None,
      balance_text = ''5.00''\<rparr>"

definition ex_fs :: "string \<Rightarrow> string list option" where
  "ex_fs f =
     (if f = ''PayeeCategories-acc.txt'' then Some [''coffee|Dining'' @ [CHR 0x0A]]
      else if f = ''PayeeCategories.txt'' then Some [''tea|Drinks'' @ [CHR 0x0A]]
      else None)"

definition ex_sub :: "string \<Rightarrow> string \<Rightarrow> string" where
  "ex_sub p t = t"

section \<open>Calendar arithmetic: the ordinal of a date and back\<close>

lemma year_parts_ex:
  fixes Y :: int
  assumes "0 \<le> Y"
  shows "\<exists>a b c e. Y = 400 * a + 100 * b + 4 * c + e \<and> 0 \<le> a \<and> 0 \<le> b \<and> b < 4 \<and>
           0 \<le> c \<and> c < 25 \<and> 0 \<le> e \<and> e < 4"
proof -
  define a where "a = Y div 400"
  define r where "r = Y mod 400"
  define b where "b = r div 100"
  define r2 where "r2 = r mod 100"
  define c where "c = r2 div 4"
  define e where "e = r2 mod 4"
  have Y: "Y = 400 * a + r" by (simp add: a_def r_def)
  have r: "r = 100 * b + r2" by (simp add: b_def r2_def)
  have r2: "r2 = 4 * c + e" by (simp add: c_def e_def)
  have rb: "0 \<le> r" "r < 400" by (simp_all add: r_def)
  have r2b: "0 \<le> r2" "r2 < 100" by (simp_all add: r2_def)
  have eb: "0 \<le> e" "e < 4" by (simp_all add: e_def)
  have a0: "0 \<le> a" using assms by (simp add: a_def pos_imp_zdiv_nonneg_iff)
  have b0: "0 \<le> b" using rb by (simp add: b_def pos_imp_zdiv_nonneg_iff)
  have c0: "0 \<le> c" using r2b by (simp add: c_def pos_imp_zdiv_nonneg_iff)
  have b4: "b < 4" using rb r r2b by linarith
  have c25: "c < 25" using r2b r2 eb by linarith
  have "Y = 400 * a + 100 * b + 4 * c + e" using Y r r2 by linarith
  then show ?thesis using a0 b0 b4 c0 c25 eb by blast
qed

lemma year_parts:
  fixes Y a b c e :: int
  assumes Y: "Y = 400 * a + 100 * b + 4 * c + e"
    and bnds: "0 \<le> a" "0 \<le> b" "b < 4" "0 \<le> c" "c < 25" "0 \<le> e" "e < 4"
  shows "days_before_year (Y + 1) = 146097 * a + 36524 * b + 1461 * c + 365 * e"
proof -
  have d4: "Y div 4 = 100 * a + 25 * b + c"
    by (rule int_div_pos_eq[where r = e]) (use Y bnds in auto)
  have d100: "Y div 100 = 4 * a + b"
    by (rule int_div_pos_eq[where r = "4 * c + e"]) (use Y bnds in auto)
  have d400: "Y div 400 = a"
    by (rule int_div_pos_eq[where r = "100 * b + 4 * c + e"]) (use Y bnds in auto)
  show ?thesis
    unfolding days_before_year_def using d4 d100 d400 Y by simp
qed

lemma leap_parts:
  fixes Y a b c e :: int
  assumes Y: "Y = 400 * a + 100 * b + 4 * c + e"
    and bnds: "0 \<le> a" "0 \<le> b" "b < 4" "0 \<le> c" "c < 25" "0 \<le> e" "e < 4"
  shows "is_leap (Y + 1) = (e = 3 \<and> (c \<noteq> 24 \<or> b = 3))"
proof -
  have m4: "(Y + 1) mod 4 = (if e = 3 then 0 else e + 1)"
  proof (cases "e = 3")
    case True
    have "(Y + 1) mod 4 = 0"
      by (rule int_mod_pos_eq[where q = "100 * a + 25 * b + c + 1"]) (use Y True in auto)
    then show ?thesis using True by simp
  next
    case False
    have "(Y + 1) mod 4 = e + 1"
      by (rule int_mod_pos_eq[where q = "100 * a + 25 * b + c"]) (use Y False bnds in auto)
    then show ?thesis using False by simp
  qed
  have m100: "(Y + 1) mod 100 = (if e = 3 \<and> c = 24 then 0 else 4 * c + e + 1)"
  proof (cases "e = 3 \<and> c = 24")
    case True
    have "(Y + 1) mod 100 = 0"
      by (rule int_mod_pos_eq[where q = "4 * a + b + 1"]) (use Y True in auto)
    then show ?thesis using True by simp
  next
    case False
    have "(Y + 1) mod 100 = 4 * c + e + 1"
      by (rule int_mod_pos_eq[where q = "4 * a + b"]) (use Y False bnds in auto)
    then show ?thesis using False by simp
  qed
  have m400: "(Y + 1) mod 400 = (if e = 3 \<and> c = 24 \<and> b = 3 then 0 else 100 * b + 4 * c + e + 1)"
  proof (cases "e = 3 \<and> c = 24 \<and> b = 3")
    case True
    have "(Y + 1) mod 400 = 0"
      by (rule int_mod_pos_eq[where q = "a + 1"]) (use Y True in auto)
    then show ?thesis using True by simp
  next
    case False
    have "(Y + 1) mod 400 = 100 * b + 4 * c + e + 1"
      by (rule int_mod_pos_eq[where q = "a"]) (use Y False bnds in auto)
    then show ?thesis using False by simp
  qed
  show ?thesis
    unfolding is_leap_def m4 m100 m400 using bnds by auto
qed

lemma month_day_general:
  fixes k lo hi m y :: int
  assumes k: "lo \<le> k" "k < hi"
    and est_lo: "32 * m \<le> lo + 50"
    and est_hi: "hi + 50 \<le> 32 * m + 32 \<or>
       (hi + 50 \<le> 32 * m + 64 \<and>
        DAYS_BEFORE_MONTH ! nat (m + 1) + (if m + 1 > 2 \<and> leap then 1 else 0) = hi)"
    and lo: "DAYS_BEFORE_MONTH ! nat m + (if m > 2 \<and> leap then 1 else 0) = lo"
    and dim: "days_in_month y m = hi - lo"
  shows "month_day y leap k = \<lparr>year = y, month = m, day = k - lo + 1\<rparr>"
proof -
  define q where "q = (k + 50) div 32"
  have "k + 50 = 32 * q + (k + 50) mod 32"
    by (simp add: q_def)
  moreover have "0 \<le> (k + 50) mod 32" "(k + 50) mod 32 < 32"
    by simp_all
  ultimately have qb: "32 * q \<le> k + 50" "k + 50 < 32 * q + 32"
    by linarith+
  have mq: "m \<le> q"
    using qb est_lo k by linarith
  show ?thesis
  proof (cases "q = m")
    case True
    then show ?thesis
      unfolding month_day_def Let_def q_def[symmetric] using lo k by simp
  next
    case False
    have hi2: "hi + 50 \<le> 32 * m + 64"
      using est_hi by auto
    have "q < m + 2"
      using qb k hi2 by linarith
    with False mq have q1: "q = m + 1"
      by linarith
    have "\<not> hi + 50 \<le> 32 * m + 32"
      using qb k q1 by linarith
    with est_hi have h: "DAYS_BEFORE_MONTH ! nat (m + 1) + (if m + 1 > 2 \<and> leap then 1 else 0) = hi"
      by blast
    show ?thesis
      unfolding month_day_def Let_def q_def[symmetric] q1 h using k dim by simp
  qed
qed

lemma month_day_correct:
  fixes m d y :: int
  assumes m: "1 \<le> m" "m \<le> 12" and d: "1 \<le> d" "d \<le> days_in_month y m"
  shows "month_day y (is_leap y) (days_before_month y m + d - 1) = \<lparr>year = y, month = m, day = d\<rparr>"
proof -
  let ?lo = "days_before_month y m"
  let ?hi = "days_before_month y m + days_in_month y m"
  consider "m = 1" | "m = 2" | "m = 3" | "m = 4" | "m = 5" | "m = 6" | "m = 7" | "m = 8"
    | "m = 9" | "m = 10" | "m = 11" | "m = 12"
    using m by atomize_elim arith
  then have "month_day y (is_leap y) (?lo + d - 1) = \<lparr>year = y, month = m, day = (?lo + d - 1) - ?lo + 1\<rparr>"
  proof cases
    case 1
    show ?thesis
      by (rule month_day_general[where hi = "?hi"])
         (use 1 d in \<open>simp_all add: days_before_month_def days_in_month_def DAYS_BEFORE_MONTH_def DAYS_IN_MONTH_def\<close>)
  next
    case 2
    show ?thesis
      by (rule month_day_general[where hi = "?hi"])
         (use 2 d in \<open>simp_all add: days_before_month_def days_in_month_def DAYS_BEFORE_MONTH_def DAYS_IN_MONTH_def\<close>)
  next
    case 3
    show ?thesis
      by (rule month_day_general[where hi = "?hi"])
         (use 3 d in \<open>simp_all add: days_before_month_def days_in_month_def DAYS_BEFORE_MONTH_def DAYS_IN_MONTH_def\<close>)
  next
    case 4
    show ?thesis
      by (rule month_day_general[where hi = "?hi"])
         (use 4 d in \<open>simp_all add: days_before_month_def days_in_month_def DAYS_BEFORE_MONTH_def DAYS_IN_MONTH_def\<close>)
  next
    case 5
    show ?thesis
      by (rule month_day_general[where hi = "?hi"])
         (use 5 d in \<open>simp_all add: days_before_month_def days_in_month_def DAYS_BEFORE_MONTH_def DAYS_IN_MONTH_def\<close>)
  next
    case 6
    show ?thesis
      by (rule month_day_general[where hi = "?hi"])
         (use 6 d in \<open>simp_all add: days_before_month_def days_in_month_def DAYS_BEFORE_MONTH_def DAYS_IN_MONTH_def\<close>)
  next
    case 7
    show ?thesis
      by (rule month_day_general[where hi = "?hi"])
         (use 7 d in \<open>simp_all add: days_before_month_def days_in_month_def DAYS_BEFORE_MONTH_def DAYS_IN_MONTH_def\<close>)
  next
    case 8
    show ?thesis
      by (rule month_day_general[where hi = "?hi"])
         (use 8 d in \<open>simp_all add: days_before_month_def days_in_month_def DAYS_BEFORE_MONTH_def DAYS_IN_MONTH_def\<close>)
  next
    case 9
    show ?thesis
      by (rule month_day_general[where hi = "?hi"])
         (use 9 d in \<open>simp_all add: days_before_month_def days_in_month_def DAYS_BEFORE_MONTH_def DAYS_IN_MONTH_def\<close>)
  next
    case 10
    show ?thesis
      by (rule month_day_general[where hi = "?hi"])
         (use 10 d in \<open>simp_all add: days_before_month_def days_in_month_def DAYS_BEFORE_MONTH_def DAYS_IN_MONTH_def\<close>)
  next
    case 11
    show ?thesis
      by (rule month_day_general[where hi = "?hi"])
         (use 11 d in \<open>simp_all add: days_before_month_def days_in_month_def DAYS_BEFORE_MONTH_def DAYS_IN_MONTH_def\<close>)
  next
    case 12
    show ?thesis
      by (rule month_day_general[where hi = "?hi"])
         (use 12 d in \<open>simp_all add: days_before_month_def days_in_month_def DAYS_BEFORE_MONTH_def DAYS_IN_MONTH_def\<close>)
  qed
  then show ?thesis by simp
qed


lemma ord_to_ymd_parts:
  fixes a b c e k n :: int
  assumes bnds: "0 \<le> a" "0 \<le> b" "b < 4" "0 \<le> c" "c < 25" "0 \<le> e" "e < 4" "0 \<le> k"
    and k: "k < 365 \<or> (k = 365 \<and> e = 3 \<and> (c \<noteq> 24 \<or> b = 3))"
    and n: "n = 146097 * a + 36524 * b + 1461 * c + 365 * e + k"
  shows "ord_to_ymd (n + 1) =
      (if k = 365 then \<lparr>year = 400 * a + 100 * b + 4 * c + e + 1, month = 12, day = 31\<rparr>
       else month_day (400 * a + 100 * b + 4 * c + e + 1) (e = 3 \<and> (c \<noteq> 24 \<or> b = 3)) k)"
proof -
  define R1 where "R1 = 36524 * b + 1461 * c + 365 * e + k"
  define R2 where "R2 = 1461 * c + 365 * e + k"
  define R3 where "R3 = 365 * e + k"
  have k365: "k \<le> 365" using k by linarith
  have R1b: "0 \<le> R1" "R1 < 146097"
    unfolding R1_def using bnds k by linarith+
  have d1: "n div 146097 = a" "n mod 146097 = R1"
    using int_div_pos_eq[of n 146097 a R1] int_mod_pos_eq[of n 146097 a R1] R1b n
    by (simp_all add: R1_def)
  have R3b: "0 \<le> R3" "R3 < 1461"
    unfolding R3_def using bnds k365 by linarith+
  show ?thesis
  proof (cases "k = 365")
    case False
    then have k': "k < 365" using k by linarith
    have R2b: "0 \<le> R2" "R2 < 36524"
      unfolding R2_def using bnds k' by linarith+
    have d2: "R1 div 36524 = b" "R1 mod 36524 = R2"
      using int_div_pos_eq[of R1 36524 b R2] int_mod_pos_eq[of R1 36524 b R2] R2b
      by (simp_all add: R1_def R2_def)
    have d3: "R2 div 1461 = c" "R2 mod 1461 = R3"
      using int_div_pos_eq[of R2 1461 c R3] int_mod_pos_eq[of R2 1461 c R3] R3b
      by (simp_all add: R2_def R3_def)
    have d4: "R3 div 365 = e" "R3 mod 365 = k"
      using int_div_pos_eq[of R3 365 e k] int_mod_pos_eq[of R3 365 e k] k' bnds
      by (simp_all add: R3_def)
    have e4: "e \<noteq> 4" "b \<noteq> 4" using bnds by linarith+
    show ?thesis
      unfolding ord_to_ymd_def month_day_def
      using False e4 by (simp add: Let_def d1 d2 d3 d4 algebra_simps)
  next
    case True
    then have e3: "e = 3" and cb: "c \<noteq> 24 \<or> b = 3" using k by auto
    show ?thesis
    proof (cases "c = 24")
      case c24: True
      then have b3: "b = 3" using cb by simp
      have R1v: "R1 = 146096" by (simp add: R1_def b3 c24 e3 True)
      show ?thesis
        unfolding ord_to_ymd_def
        using True by (simp add: Let_def d1 R1v b3 c24 e3)
    next
      case c24: False
      then have c23: "c < 24" using bnds by linarith
      have R2b: "0 \<le> R2" "R2 < 36524"
        unfolding R2_def using bnds c23 k365 by linarith+
      have d2: "R1 div 36524 = b" "R1 mod 36524 = R2"
        using int_div_pos_eq[of R1 36524 b R2] int_mod_pos_eq[of R1 36524 b R2] R2b
        by (simp_all add: R1_def R2_def)
      have d3: "R2 div 1461 = c" "R2 mod 1461 = R3"
        using int_div_pos_eq[of R2 1461 c R3] int_mod_pos_eq[of R2 1461 c R3] R3b
        by (simp_all add: R2_def R3_def)
      have R3v: "R3 = 1460" by (simp add: R3_def e3 True)
      show ?thesis
        unfolding ord_to_ymd_def
        using True by (simp add: Let_def d1 d2 d3 R3v e3)
    qed
  qed
qed

lemma month_cases:
  fixes m :: int
  assumes "1 \<le> m" "m \<le> 12"
  shows "m = 1 \<or> m = 2 \<or> m = 3 \<or> m = 4 \<or> m = 5 \<or> m = 6 \<or> m = 7 \<or> m = 8 \<or> m = 9 \<or>
         m = 10 \<or> m = 11 \<or> m = 12"
  using assms by arith


lemma days_in_month_bounds:
  fixes m :: int
  assumes "1 \<le> m" "m \<le> 12"
  shows "28 \<le> days_in_month y m \<and> days_in_month y m \<le> 31"
  using month_cases[OF assms]
  by (auto simp: days_in_month_def DAYS_IN_MONTH_def)


lemma days_before_month_next:
  fixes m :: int
  assumes "1 \<le> m" "m < 12"
  shows "days_before_month y (m + 1) = days_before_month y m + days_in_month y m"
proof -
  have "m = 1 \<or> m = 2 \<or> m = 3 \<or> m = 4 \<or> m = 5 \<or> m = 6 \<or> m = 7 \<or> m = 8 \<or> m = 9 \<or>
         m = 10 \<or> m = 11"
    using assms by arith
  then show ?thesis
    by (auto simp: days_before_month_def days_in_month_def DAYS_BEFORE_MONTH_def DAYS_IN_MONTH_def)
qed


lemma days_before_month_12:
  "days_before_month y 12 + days_in_month y 12 = 365 + (if is_leap y then 1 else 0)"
  by (simp add: days_before_month_def days_in_month_def DAYS_BEFORE_MONTH_def DAYS_IN_MONTH_def)


lemma days_before_month_1: "days_before_month y 1 = 0"
  by (simp add: days_before_month_def DAYS_BEFORE_MONTH_def)


lemma yday_bounds:
  fixes m d y :: int
  assumes m: "1 \<le> m" "m \<le> 12" and d: "1 \<le> d" "d \<le> days_in_month y m"
  shows "0 \<le> days_before_month y m + d - 1"
    and "days_before_month y m + d - 1 < 365 \<or>
         (days_before_month y m + d - 1 = 365 \<and> is_leap y \<and> m = 12 \<and> d = 31)"
  using month_cases[OF m] d
  by (auto simp: days_before_month_def days_in_month_def DAYS_BEFORE_MONTH_def DAYS_IN_MONTH_def
           split: if_splits)

lemma toordinal_parts:
  assumes v: "valid_date d"
  shows "\<exists>a b c e k. 0 \<le> a \<and> 0 \<le> b \<and> b < 4 \<and> 0 \<le> c \<and> c < 25 \<and> 0 \<le> e \<and> e < 4 \<and> 0 \<le> k \<and>
           year d = 400 * a + 100 * b + 4 * c + e + 1 \<and>
           is_leap (year d) = (e = 3 \<and> (c \<noteq> 24 \<or> b = 3)) \<and>
           k = days_before_month (year d) (month d) + day d - 1 \<and>
           (k < 365 \<or> (k = 365 \<and> is_leap (year d) \<and> month d = 12 \<and> day d = 31)) \<and>
           toordinal d = 146097 * a + 36524 * b + 1461 * c + 365 * e + k + 1"
proof -
  have y0: "0 \<le> year d - 1"
    using v by (simp add: valid_date_def MINYEAR_def)
  obtain a b c e where Y: "year d - 1 = 400 * a + 100 * b + 4 * c + e"
    and bnds: "0 \<le> a" "0 \<le> b" "b < 4" "0 \<le> c" "c < 25" "0 \<le> e" "e < 4"
    using year_parts_ex[OF y0] by blast
  have dby: "days_before_year (year d) = 146097 * a + 36524 * b + 1461 * c + 365 * e"
    using year_parts[OF Y bnds] by simp
  have lp: "is_leap (year d) = (e = 3 \<and> (c \<noteq> 24 \<or> b = 3))"
    using leap_parts[OF Y bnds] by simp
  define k where "k = days_before_month (year d) (month d) + day d - 1"
  have md: "1 \<le> month d" "month d \<le> 12" "1 \<le> day d" "day d \<le> days_in_month (year d) (month d)"
    using v by (simp_all add: valid_date_def)
  have k0: "0 \<le> k"
    unfolding k_def using yday_bounds(1)[OF md] .
  have k1: "k < 365 \<or> (k = 365 \<and> is_leap (year d) \<and> month d = 12 \<and> day d = 31)"
    unfolding k_def using yday_bounds(2)[OF md] .
  have ord: "toordinal d = 146097 * a + 36524 * b + 1461 * c + 365 * e + k + 1"
    unfolding toordinal_def ymd_to_ord_def dby k_def by simp
  have yr: "year d = 400 * a + 100 * b + 4 * c + e + 1"
    using Y by linarith
  show ?thesis
    using bnds k0 yr lp k1 ord k_def by blast
qed


lemma ord_to_ymd_toordinal:
  assumes v: "valid_date d"
  shows "ord_to_ymd (toordinal d) = d"
proof -
  obtain a b c e k where bnds: "0 \<le> a" "0 \<le> b" "b < 4" "0 \<le> c" "c < 25" "0 \<le> e" "e < 4" "0 \<le> k"
    and yr: "year d = 400 * a + 100 * b + 4 * c + e + 1"
    and lp: "is_leap (year d) = (e = 3 \<and> (c \<noteq> 24 \<or> b = 3))"
    and k: "k = days_before_month (year d) (month d) + day d - 1"
    and k1: "k < 365 \<or> (k = 365 \<and> is_leap (year d) \<and> month d = 12 \<and> day d = 31)"
    and ord: "toordinal d = 146097 * a + 36524 * b + 1461 * c + 365 * e + k + 1"
    using toordinal_parts[OF v] by blast
  have md: "1 \<le> month d" "month d \<le> 12" "1 \<le> day d" "day d \<le> days_in_month (year d) (month d)"
    using v by (simp_all add: valid_date_def)
  have k2: "k < 365 \<or> (k = 365 \<and> e = 3 \<and> (c \<noteq> 24 \<or> b = 3))"
    using k1 lp by blast
  have parts: "ord_to_ymd (toordinal d) =
      (if k = 365 then \<lparr>year = year d, month = 12, day = 31\<rparr>
       else month_day (year d) (is_leap (year d)) k)"
    using ord_to_ymd_parts[OF bnds k2 refl] ord yr lp by simp
  show ?thesis
  proof (cases "k = 365")
    case True
    then have "month d = 12" "day d = 31" using k1 by auto
    then show ?thesis using parts True by simp
  next
    case False
    then show ?thesis
      using parts month_day_correct[OF md] k by simp
  qed
qed


lemma toordinal_range:
  assumes v: "valid_date d"
  shows "1 \<le> toordinal d \<and> toordinal d \<le> MAXORDINAL"
proof -
  obtain a b c e k where bnds: "0 \<le> a" "0 \<le> b" "b < 4" "0 \<le> c" "c < 25" "0 \<le> e" "e < 4" "0 \<le> k"
    and yr: "year d = 400 * a + 100 * b + 4 * c + e + 1"
    and lp: "is_leap (year d) = (e = 3 \<and> (c \<noteq> 24 \<or> b = 3))"
    and k: "k = days_before_month (year d) (month d) + day d - 1"
    and k1: "k < 365 \<or> (k = 365 \<and> is_leap (year d) \<and> month d = 12 \<and> day d = 31)"
    and ord: "toordinal d = 146097 * a + 36524 * b + 1461 * c + 365 * e + k + 1"
    using toordinal_parts[OF v] by blast
  have ymax: "year d \<le> 9999"
    using v by (simp add: valid_date_def MAXYEAR_def)
  have lo: "1 \<le> toordinal d"
    using ord bnds by linarith
  have a24: "a \<le> 24"
    using ymax yr bnds by linarith
  have hi: "toordinal d \<le> 3652059"
  proof (cases "a = 24")
    case False
    then have "a \<le> 23" using a24 by linarith
    moreover have "k \<le> 365" using k1 by linarith
    ultimately show ?thesis using ord bnds by linarith
  next
    case True
    then have small: "100 * b + 4 * c + e \<le> 398"
      using ymax yr by linarith
    show ?thesis
    proof (cases "b = 3 \<and> c = 24")
      case True
      then have "e \<le> 2" using small by linarith
      then have "\<not> is_leap (year d)" using lp by simp
      then have "k < 365" using k1 by blast
      then show ?thesis using ord \<open>a = 24\<close> True \<open>e \<le> 2\<close> by linarith
    next
      case False
      then have "36524 * b + 1461 * c \<le> 143175"
        using bnds by (cases "b = 3") auto
      moreover have "k \<le> 365" using k1 by linarith
      ultimately show ?thesis using ord \<open>a = 24\<close> bnds by linarith
    qed
  qed
  show ?thesis
    using lo hi by (simp add: MAXORDINAL_def)
qed

lemma div_pred:
  fixes y n :: int
  assumes n: "0 < n"
  shows "(y - 1) div n = y div n - (if y mod n = 0 then 1 else 0)"
proof (cases "y mod n = 0")
  case True
  have "y = n * (y div n)"
    using True by (metis add.right_neutral mult_div_mod_eq)
  then have "y - 1 = n * (y div n - 1) + (n - 1)"
    by (simp add: algebra_simps)
  then have "(y - 1) div n = y div n - 1"
    using n by (intro int_div_pos_eq[where r = "n - 1"]) auto
  then show ?thesis using True by simp
next
  case False
  have "0 \<le> y mod n" "y mod n < n"
    using n by simp_all
  then have r: "0 \<le> y mod n - 1" "y mod n - 1 < n"
    using False by linarith+
  have "y - 1 = n * (y div n) + (y mod n - 1)"
    by (simp add: algebra_simps)
  then have "(y - 1) div n = y div n"
    using r by (intro int_div_pos_eq[where r = "y mod n - 1"]) auto
  then show ?thesis using False by simp
qed


lemma days_before_year_succ:
  "days_before_year (y + 1) = days_before_year y + 365 + (if is_leap y then 1 else 0)"
proof -
  define i4 :: int where "i4 = (if y mod 4 = 0 then 1 else 0)"
  define i100 :: int where "i100 = (if y mod 100 = 0 then 1 else 0)"
  define i400 :: int where "i400 = (if y mod 400 = 0 then 1 else 0)"
  have d4: "(y - 1) div 4 = y div 4 - i4"
    unfolding i4_def by (rule div_pred) simp
  have d100: "(y - 1) div 100 = y div 100 - i100"
    unfolding i100_def by (rule div_pred) simp
  have d400: "(y - 1) div 400 = y div 400 - i400"
    unfolding i400_def by (rule div_pred) simp
  have m100: "y mod 100 = 0 \<Longrightarrow> y mod 4 = 0"
    using mod_mod_cancel[of 4 100 y] by simp
  have m400: "y mod 400 = 0 \<Longrightarrow> y mod 100 = 0"
    using mod_mod_cancel[of 100 400 y] by simp
  have lp: "(if is_leap y then 1 else 0) = i4 - i100 + i400"
  proof (cases "y mod 4 = 0")
    case False
    then show ?thesis
      using m100 m400 by (auto simp: is_leap_def i4_def i100_def i400_def)
  next
    case t4: True
    show ?thesis
    proof (cases "y mod 100 = 0")
      case False
      then show ?thesis
        using t4 m400 by (auto simp: is_leap_def i4_def i100_def i400_def)
    next
      case True
      then show ?thesis
        using t4 by (simp add: is_leap_def i4_def i100_def i400_def)
    qed
  qed
  have "days_before_year (y + 1) = y * 365 + y div 4 - y div 100 + y div 400"
    by (simp add: days_before_year_def)
  moreover have "days_before_year y = (y - 1) * 365 + (y div 4 - i4) - (y div 100 - i100) + (y div 400 - i400)"
    by (simp add: days_before_year_def d4 d100 d400)
  ultimately show ?thesis
    unfolding lp by (simp add: algebra_simps)
qed

lemma fromordinal_toordinal:
  assumes "valid_date d"
  shows "fromordinal (toordinal d) = Inr d"
  using toordinal_range[OF assms] ord_to_ymd_toordinal[OF assms]
  by (simp add: fromordinal_def)

lemma date_add_days_eq:
  assumes "valid_date p" and "toordinal p = toordinal d + k"
  shows "date_add_days d k = Inr p"
  using toordinal_range[OF assms(1)] ord_to_ymd_toordinal[OF assms(1)] assms(2)
  by (simp add: date_add_days_def Let_def)

lemma month_start_valid:
  assumes "valid_date d"
  shows "month_start d = Inr \<lparr>year = year d, month = month d, day = 1\<rparr>"
    and "valid_date \<lparr>year = year d, month = month d, day = 1\<rparr>"
proof -
  have "1 \<le> month d" "month d \<le> 12"
    using assms by (simp_all add: valid_date_def)
  from days_in_month_bounds[OF this, of "year d"]
  show v: "valid_date \<lparr>year = year d, month = month d, day = 1\<rparr>"
    using assms by (simp add: valid_date_def)
  then show "month_start d = Inr \<lparr>year = year d, month = month d, day = 1\<rparr>"
    by (simp add: month_start_def date_new_def)
qed

lemma last_of_prev_month_props:
  assumes v: "valid_date d" and nf: "\<not> (year d = MINYEAR \<and> month d = 1)"
  shows "valid_date (last_of_prev_month d)"
    and "toordinal (last_of_prev_month d) + 1 = toordinal \<lparr>year = year d, month = month d, day = 1\<rparr>"
proof -
  have md: "1 \<le> month d" "month d \<le> 12" and yr: "MINYEAR \<le> year d" "year d \<le> MAXYEAR"
    using v by (simp_all add: valid_date_def)
  show "valid_date (last_of_prev_month d)"
  proof (cases "month d = 1")
    case True
    then have "MINYEAR \<le> year d - 1" using nf yr by (simp add: MINYEAR_def)
    then show ?thesis
      using True yr
      by (simp add: last_of_prev_month_def valid_date_def days_in_month_def DAYS_IN_MONTH_def)
  next
    case False
    then have "1 \<le> month d - 1" "month d - 1 \<le> 12" using md by linarith+
    from days_in_month_bounds[OF this, of "year d"] this show ?thesis
      using False yr by (simp add: last_of_prev_month_def valid_date_def)
  qed
  show "toordinal (last_of_prev_month d) + 1 = toordinal \<lparr>year = year d, month = month d, day = 1\<rparr>"
  proof (cases "month d = 1")
    case True
    have "days_before_year (year d - 1 + 1) =
            days_before_year (year d - 1) + 365 + (if is_leap (year d - 1) then 1 else 0)"
      by (rule days_before_year_succ)
    then show ?thesis
      using True days_before_month_12[of "year d - 1"]
      by (simp add: last_of_prev_month_def toordinal_def ymd_to_ord_def days_before_month_1
            days_in_month_def DAYS_IN_MONTH_def)
  next
    case False
    then have "1 \<le> month d - 1" "month d - 1 < 12" using md by linarith+
    from days_before_month_next[OF this, of "year d"] show ?thesis
      using False by (simp add: last_of_prev_month_def toordinal_def ymd_to_ord_def)
  qed
qed

lemma month_end_prev_eq:
  assumes v: "valid_date d" and nf: "\<not> (year d = MINYEAR \<and> month d = 1)"
  shows "month_end_prev d = Inr (last_of_prev_month d)"
proof -
  note p = last_of_prev_month_props[OF v nf]
  have "date_add_days \<lparr>year = year d, month = month d, day = 1\<rparr> (- 1) = Inr (last_of_prev_month d)"
    by (rule date_add_days_eq[OF p(1)]) (use p(2) in simp)
  then show ?thesis
    using month_start_valid(1)[OF v] fromordinal_toordinal[OF p(1)]
    by (simp add: month_end_prev_def bind_def)
qed

lemma month_end_prev_plus_one:
  assumes v: "valid_date d" and nf: "\<not> (year d = MINYEAR \<and> month d = 1)"
  shows "date_add_days (last_of_prev_month d) 1 = Inr \<lparr>year = year d, month = month d, day = 1\<rparr>"
  by (rule date_add_days_eq[OF month_start_valid(2)[OF v]])
     (use last_of_prev_month_props(2)[OF v nf] in simp)

lemma month_next_eq:
  assumes v: "valid_date d" and nl: "\<not> (year d = MAXYEAR \<and> month d = 12)"
  shows "month_next d = Inr (first_of_next_month d)"
    and "valid_date (first_of_next_month d)"
proof -
  have md: "1 \<le> month d" "month d \<le> 12" and yr: "MINYEAR \<le> year d" "year d \<le> MAXYEAR"
    using v by (simp_all add: valid_date_def)
  note dim = days_in_month_bounds[OF md, of "year d"]
  define p where "p = (if month d = 12 then \<lparr>year = year d + 1, month = 1, day = 1\<rparr>
      else \<lparr>year = year d, month = month d + 1, day = 32 - days_in_month (year d) (month d)\<rparr>)"
  have vp: "valid_date p"
  proof (cases "month d = 12")
    case True
    then have "year d + 1 \<le> MAXYEAR" using nl yr by (simp add: MAXYEAR_def)
    then show ?thesis
      using True yr
      by (simp add: p_def valid_date_def days_in_month_def DAYS_IN_MONTH_def MINYEAR_def)
  next
    case False
    then have "1 \<le> month d + 1" "month d + 1 \<le> 12" using md by linarith+
    from days_in_month_bounds[OF this, of "year d"] this show ?thesis
      using False yr dim by (simp add: p_def valid_date_def)
  qed
  have op: "toordinal p = toordinal \<lparr>year = year d, month = month d, day = 1\<rparr> + 31"
  proof (cases "month d = 12")
    case True
    then show ?thesis
      using days_before_year_succ[of "year d"] days_before_month_12[of "year d"]
      by (simp add: p_def toordinal_def ymd_to_ord_def days_before_month_1
            days_in_month_def DAYS_IN_MONTH_def)
  next
    case False
    then have "1 \<le> month d" "month d < 12" using md by linarith+
    from days_before_month_next[OF this, of "year d"] show ?thesis
      using False by (simp add: p_def toordinal_def ymd_to_ord_def)
  qed
  have add: "date_add_days \<lparr>year = year d, month = month d, day = 1\<rparr> 31 = Inr p"
    by (rule date_add_days_eq[OF vp op])
  have ms: "month_start p = Inr (first_of_next_month d)"
    using month_start_valid(1)[OF vp] by (simp add: p_def first_of_next_month_def)
  show "month_next d = Inr (first_of_next_month d)"
    using month_start_valid(1)[OF v] add fromordinal_toordinal[OF vp] ms
    by (simp add: month_next_def bind_def)
  show "valid_date (first_of_next_month d)"
    using month_start_valid(2)[OF vp]
    by (cases "month d = 12") (simp_all add: p_def first_of_next_month_def)
qed

lemma month_end_eq:
  assumes v: "valid_date d" and nl: "\<not> (year d = MAXYEAR \<and> month d = 12)"
  shows "month_end d = Inr \<lparr>year = year d, month = month d, day = days_in_month (year d) (month d)\<rparr>"
proof -
  have md: "1 \<le> month d" "month d \<le> 12" and yr: "MINYEAR \<le> year d" "year d \<le> MAXYEAR"
    using v by (simp_all add: valid_date_def)
  note n = month_next_eq[OF v nl]
  have nf: "\<not> (year (first_of_next_month d) = MINYEAR \<and> month (first_of_next_month d) = 1)"
    using yr md by (simp add: first_of_next_month_def MINYEAR_def)
  have "last_of_prev_month (first_of_next_month d) =
          \<lparr>year = year d, month = month d, day = days_in_month (year d) (month d)\<rparr>"
    using md by (simp add: first_of_next_month_def last_of_prev_month_def days_in_month_def DAYS_IN_MONTH_def)
  then show ?thesis
    using n(1) month_end_prev_eq[OF n(2) nf] by (simp add: month_end_def bind_def)
qed

section \<open>Claims about MonthDate\<close>

text \<open>
  Claim C9, as amended. For every date \<open>d\<close> outside January of year 1,
  \<open>month_end_prev\<close> plus one day is \<open>month_start\<close>; for every date outside December
  of year 9999, \<open>month_next\<close> is a first of a month, its \<open>month_start\<close> is strictly
  after \<open>month_end\<close>, \<open>month_end\<close> is the day before it, and \<open>month_end\<close> is the
  last day of the month of \<open>d\<close> by the month's length in that year (29 days for
  February in a leap year). At the two ends of the range of \<open>datetime.date\<close> the
  properties raise \<open>OverflowError\<close> instead.
\<close>

theorem month_boundaries:
  assumes v: "valid_date d"
  shows "(\<not> (year d = MINYEAR \<and> month d = 1) \<longrightarrow>
            (\<exists>p. month_end_prev d = Inr p \<and> date_add_days p 1 = month_start d))
       \<and> (\<not> (year d = MAXYEAR \<and> month d = 12) \<longrightarrow>
            (\<exists>n ns e. month_next d = Inr n \<and> month_start n = Inr ns \<and> month_end d = Inr e \<and>
               date_less e ns \<and> date_add_days e 1 = Inr n \<and>
               e = \<lparr>year = year d, month = month d, day = days_in_month (year d) (month d)\<rparr>))"
proof (intro conjI impI)
  assume nf: "\<not> (year d = MINYEAR \<and> month d = 1)"
  show "\<exists>p. month_end_prev d = Inr p \<and> date_add_days p 1 = month_start d"
    using month_end_prev_eq[OF v nf] month_end_prev_plus_one[OF v nf] month_start_valid(1)[OF v]
    by simp
next
  assume nl: "\<not> (year d = MAXYEAR \<and> month d = 12)"
  have md: "1 \<le> month d" "month d \<le> 12" and yr: "MINYEAR \<le> year d" "year d \<le> MAXYEAR"
    using v by (simp_all add: valid_date_def)
  let ?n = "first_of_next_month d"
  let ?e = "\<lparr>year = year d, month = month d, day = days_in_month (year d) (month d)\<rparr>"
  note n = month_next_eq[OF v nl]
  have nf: "\<not> (year ?n = MINYEAR \<and> month ?n = 1)"
    using yr md by (simp add: first_of_next_month_def MINYEAR_def)
  have ms: "month_start ?n = Inr ?n"
    using month_start_valid(1)[OF n(2)] by (simp add: first_of_next_month_def)
  have lp: "last_of_prev_month ?n = ?e"
    using md by (simp add: first_of_next_month_def last_of_prev_month_def days_in_month_def DAYS_IN_MONTH_def)
  have add: "date_add_days ?e 1 = Inr ?n"
    using month_end_prev_plus_one[OF n(2) nf] lp by (simp add: first_of_next_month_def)
  have less: "date_less ?e ?n"
    using md by (simp add: date_less_def first_of_next_month_def)
  show "\<exists>n ns e. month_next d = Inr n \<and> month_start n = Inr ns \<and> month_end d = Inr e \<and>
               date_less e ns \<and> date_add_days e 1 = Inr n \<and> e = ?e"
    using n(1) ms month_end_eq[OF v nl] add less by blast
qed

text \<open>The theorem at 15 February 2024, a leap year.\<close>

theorem month_boundaries_witness:
  "valid_date \<lparr>year = 2024, month = 2, day = 15\<rparr> \<and>
   month_end_prev \<lparr>year = 2024, month = 2, day = 15\<rparr> = Inr \<lparr>year = 2024, month = 1, day = 31\<rparr> \<and>
   month_end \<lparr>year = 2024, month = 2, day = 15\<rparr> = Inr \<lparr>year = 2024, month = 2, day = 29\<rparr>"
proof -
  let ?d = "\<lparr>year = 2024, month = 2, day = 15\<rparr>"
  have l: "is_leap 2024" by (simp add: is_leap_def)
  have v: "valid_date ?d"
    by (simp add: valid_date_def MINYEAR_def MAXYEAR_def days_in_month_def l)
  have nf: "\<not> (year ?d = MINYEAR \<and> month ?d = 1)" by simp
  have nl: "\<not> (year ?d = MAXYEAR \<and> month ?d = 12)" by simp
  from month_boundaries[OF v] nf nl obtain p n ns e where
    p: "month_end_prev ?d = Inr p" "date_add_days p 1 = month_start ?d"
    and e: "month_end ?d = Inr e" "e = \<lparr>year = year ?d, month = month ?d, day = days_in_month (year ?d) (month ?d)\<rparr>"
    by blast
  have e': "month_end ?d = Inr \<lparr>year = 2024, month = 2, day = 29\<rparr>"
    using e by (simp add: days_in_month_def l)
  have "month_end_prev ?d = Inr \<lparr>year = 2024, month = 1, day = 31\<rparr>"
    using month_end_prev_eq[OF v nf]
    by (simp add: last_of_prev_month_def days_in_month_def DAYS_IN_MONTH_def)
  then show ?thesis using v e' by simp
qed

text \<open>
  The claim as stated, for every date, fails at 15 January of year 1: the day before the
  start of that month is not a date.
\<close>

theorem month_end_prev_counterexample:
  "valid_date \<lparr>year = 1, month = 1, day = 15\<rparr> \<and>
   month_end_prev \<lparr>year = 1, month = 1, day = 15\<rparr> = Inl OverflowError"
  by (simp add: valid_date_def MINYEAR_def MAXYEAR_def days_in_month_def DAYS_IN_MONTH_def
        month_end_prev_def month_start_def date_new_def bind_def date_add_days_def toordinal_def
        ymd_to_ord_def days_before_year_def days_before_month_def DAYS_BEFORE_MONTH_def Let_def)

section \<open>Parsing and rendering of amounts\<close>

lemma strip_id:
  assumes "s \<noteq> []" "\<not> is_space (hd s)" "\<not> is_space (last s)"
  shows "strip s = s"
proof -
  have l: "lstrip s = s"
    using assms by (simp add: lstrip_def dropWhile_eq_self_iff)
  have "dropWhile is_space (rev s) = rev s"
    using assms by (simp add: dropWhile_eq_self_iff hd_rev)
  then show ?thesis
    by (simp add: strip_def rstrip_def l)
qed

lemma split_on_notin: "c \<notin> set s \<Longrightarrow> split_on c s = [s]"
  by (induction s) auto

lemma split_on_append: "c \<notin> set a \<Longrightarrow> split_on c (a @ c # b) = a # split_on c b"
  by (induction a) auto

lemma startswith_set: "startswith s old \<Longrightarrow> set old \<subseteq> set s"
  unfolding startswith_def by (metis set_take_subset)

lemma replace_absent:
  assumes "c \<in> set old" "c \<notin> set s"
  shows "replace old new s = s"
  using assms
proof (induction s)
  case Nil
  then show ?case by (subst replace.simps) simp
next
  case (Cons x xs)
  have ns: "\<not> startswith (x # xs) old"
    using startswith_set[of "x # xs" old] Cons.prems by auto
  have old: "old \<noteq> []" using Cons.prems by auto
  have "replace old new xs = xs" using Cons by simp
  then show ?case
    using ns old by (subst replace.simps) simp
qed

lemma is_digit_simps:
  "is_digit c \<Longrightarrow> c \<noteq> CHR ''.''" "is_digit c \<Longrightarrow> c \<noteq> CHR ''-''" "is_digit c \<Longrightarrow> c \<noteq> CHR '' ''"
  "is_digit c \<Longrightarrow> \<not> is_space c" "is_digit c \<Longrightarrow> c \<noteq> CHR 0x0A" "is_digit c \<Longrightarrow> c \<noteq> CHR ''m''"
  "is_digit c \<Longrightarrow> c \<noteq> CHR ''+''" "is_digit c \<Longrightarrow> c \<noteq> CHR '',''" "is_digit c \<Longrightarrow> c \<noteq> CHR ''$''"
  "is_digit c \<Longrightarrow> c \<noteq> CHR ''/''" "is_digit c \<Longrightarrow> c \<noteq> CHR ''|''"
  by (auto simp: is_digit_def is_space_def)

lemma takeWhile_digits:
  assumes "list_all is_digit ds" "\<not> is_digit x"
  shows "takeWhile is_digit (ds @ x # r) = ds" "dropWhile is_digit (ds @ x # r) = x # r"
  using assms by (induction ds) auto

lemma takeWhile_digits_all:
  assumes "list_all is_digit ds"
  shows "takeWhile is_digit ds = ds" "dropWhile is_digit ds = []"
  using assms by (induction ds) auto

lemma str_int_nonempty: "str_int ds \<noteq> []"
  by (simp add: str_int_def split: list.splits)

lemma str_int_digits: "list_all is_digit ds \<Longrightarrow> list_all is_digit (str_int ds)"
proof -
  assume a: "list_all is_digit ds"
  have "set (dropWhile (\<lambda>c. c = CHR ''0'') ds) \<subseteq> set ds"
    by (simp add: set_dropWhileD subsetI)
  then have "list_all is_digit (dropWhile (\<lambda>c. c = CHR ''0'') ds)"
    using a by (auto simp: list_all_iff)
  then show ?thesis
    by (auto simp: str_int_def is_digit_def split: list.splits)
qed

lemma Decimal_new_two_decimals:
  assumes ds: "list_all is_digit ds" "ds \<noteq> []" and d: "is_digit d1" "is_digit d2"
  shows "Decimal_new ((if sg then ''-'' else []) @ ds @ ''.'' @ [d1, d2]) =
           Inr (Finite sg (str_int (ds @ [d1, d2])) (- 2))"
proof -
  let ?r = "ds @ ''.'' @ [d1, d2]"
  let ?z = "(if sg then ''-'' else []) @ ?r"
  have hd_ds: "is_digit (hd ds)"
    using ds by (cases ds) auto
  have hdz: "\<not> is_space (hd ?z)"
  proof (cases sg)
    case True
    then show ?thesis by (simp add: is_space_def)
  next
    case False
    then have "hd ?z = hd ds" using ds by (cases ds) auto
    then show ?thesis using hd_ds is_digit_simps(4) by simp
  qed
  have lastz: "\<not> is_space (last ?z)"
    using d by (simp add: is_digit_simps)
  have st: "strip ?z = ?z"
    by (rule strip_id) (use hdz lastz in auto)
  have nd: "\<not> is_digit (CHR ''.'')"
    by (simp add: is_digit_def)
  have tw: "takeWhile is_digit (ds @ [CHR ''.'', d1, d2]) = ds"
    "dropWhile is_digit (ds @ [CHR ''.'', d1, d2]) = [CHR ''.'', d1, d2]"
    using takeWhile_digits[OF ds(1) nd, of "[d1, d2]"] by simp_all
  have pn: "parse_number sg ?r = Some (Finite sg (str_int (ds @ [d1, d2])) (- 2))"
    using ds d by (simp add: parse_number_def tw Let_def parse_exponent_def)
  have hdr: "hd ?r = hd ds" "?r \<noteq> []"
    using ds by (cases ds; simp)+
  show ?thesis
  proof (cases sg)
    case True
    then show ?thesis
      using st pn hdr hd_ds by (simp add: Decimal_new_def Let_def)
  next
    case False
    have "hd ds \<noteq> CHR ''-''" "hd ds \<noteq> CHR ''+''"
      using hd_ds by (auto simp: is_digit_def)
    then show ?thesis
      using False st pn hdr hd_ds by (simp add: Decimal_new_def Let_def)
  qed
qed

lemma dropWhile_zero_append:
  "dropWhile (\<lambda>c. c = CHR ''0'') (ds @ e) =
     (if dropWhile (\<lambda>c. c = CHR ''0'') ds = [] then dropWhile (\<lambda>c. c = CHR ''0'') e
      else dropWhile (\<lambda>c. c = CHR ''0'') ds @ e)"
  by (induction ds) auto

lemma int_frac_split:
  assumes "xs \<noteq> []"
  shows "int_part (xs @ ys) (int (length xs)) = xs" "frac_part (xs @ ys) (int (length xs)) = ys"
  using assms by (simp_all add: int_part_def frac_part_def)

lemma format_two_decimals:
  assumes ds: "list_all is_digit ds" "ds \<noteq> []" and d: "is_digit d1" "is_digit d2"
  shows "format_6_2f (Finite sg (str_int (ds @ [d1, d2])) (- 2)) =
           rjust 6 ((if sg then ''-'' else []) @ str_int ds @ ''.'' @ [d1, d2])"
proof -
  let ?c = "str_int (ds @ [d1, d2])"
  let ?z = "dropWhile (\<lambda>c. c = CHR ''0'') ds"
  have resc: "rescale (Finite sg ?c (- 2)) (- 2) = Finite sg ?c (- 2)"
    by (simp add: rescale_def)
  define dp where "dp = - 2 + int (length ?c)"
  have body: "int_part ?c dp @ with_point (frac_part ?c dp) = str_int ds @ ''.'' @ [d1, d2]"
  proof (cases "?z = []")
    case False
    then obtain a as where z: "?z = a # as"
      by (cases ?z) auto
    have "dropWhile (\<lambda>c. c = CHR ''0'') (ds @ [d1, d2]) = (a # as) @ [d1, d2]"
      unfolding dropWhile_zero_append z by simp
    then have c: "?c = (a # as) @ [d1, d2]"
      by (simp add: str_int_def)
    have s: "str_int ds = a # as"
      by (simp add: str_int_def z)
    have len: "- 2 + int (length ?c) = int (length (a # as))"
      unfolding c by simp
    show ?thesis
      unfolding dp_def len unfolding c s
      using int_frac_split[of "a # as" "[d1, d2]"] by (simp add: with_point_def)
  next
    case True
    have s: "str_int ds = ''0''"
      unfolding str_int_def True by simp
    have "dropWhile (\<lambda>c. c = CHR ''0'') (ds @ [d1, d2]) = dropWhile (\<lambda>c. c = CHR ''0'') [d1, d2]"
      unfolding dropWhile_zero_append using True by simp
    then have c: "?c = str_int [d1, d2]"
      by (simp add: str_int_def)
    show ?thesis
    proof (cases "d1 = CHR ''0''")
      case False
      then have "str_int [d1, d2] = [d1, d2]"
        by (simp add: str_int_def)
      then show ?thesis
        unfolding dp_def c s by (simp add: int_part_def frac_part_def with_point_def)
    next
      case d10: True
      show ?thesis
      proof (cases "d2 = CHR ''0''")
        case True
        then have "str_int [d1, d2] = ''0''"
          using d10 by (simp add: str_int_def)
        then show ?thesis
          unfolding dp_def c s using d10 True by (simp add: int_part_def frac_part_def with_point_def)
      next
        case False
        then have "str_int [d1, d2] = [d2]"
          using d10 by (simp add: str_int_def)
        then show ?thesis
          unfolding dp_def c s using d10 by (simp add: int_part_def frac_part_def with_point_def)
      qed
    qed
  qed
  have f1: "format_6_2f (Finite sg ?c (- 2)) =
              format_align 6 (format_sign sg) (int_part ?c dp @ with_point (frac_part ?c dp))"
    unfolding dp_def by (simp add: format_6_2f_def resc Let_def)
  show ?thesis
    unfolding f1 body by (simp add: format_align_def format_sign_def rjust_def)
qed

lemma filter_separators:
  assumes "list_all (\<lambda>c. is_digit c \<or> c \<in> set ''+,$'') w"
  shows "filter (\<lambda>c. c \<notin> set ''+,$'') w = filter is_digit w"
  using assms by (induction w) (auto simp: is_digit_def)

lemma filter_digits_id:
  assumes "list_all is_digit ds"
  shows "filter (\<lambda>c. c \<notin> set ''+,$'') ds = ds"
  using assms by (induction ds) (auto simp: is_digit_def)

lemma not_digit:
  "\<not> is_digit (CHR '' '')" "\<not> is_digit (CHR ''m'')" "\<not> is_digit (CHR ''N'')"
  "\<not> is_digit (CHR ''-'')" "\<not> is_digit (CHR 0x0A)" "\<not> is_digit (CHR ''.'')"
  "\<not> is_digit (CHR ''+'')" "\<not> is_digit (CHR '','')" "\<not> is_digit (CHR ''$'')"
  by (simp_all add: is_digit_def)

lemma number_text_props:
  assumes ds: "list_all is_digit ds" "ds \<noteq> []" and d: "is_digit d1" "is_digit d2"
  shows "CHR '' '' \<notin> set ((if sg then ''-'' else []) @ ds @ ''.'' @ [d1, d2])"
    and "CHR ''m'' \<notin> set ((if sg then ''-'' else []) @ ds @ ''.'' @ [d1, d2])"
    and "(if sg then ''-'' else []) @ ds @ ''.'' @ [d1, d2] \<noteq> []"
    and "hd ((if sg then ''-'' else []) @ ds @ ''.'' @ [d1, d2]) \<noteq> CHR ''N''"
    and "\<not> is_space (hd ((if sg then ''-'' else []) @ ds @ ''.'' @ [d1, d2]))"
proof -
  have a: "\<forall>c \<in> set ds. is_digit c"
    using ds by (simp add: list_all_iff)
  show "CHR '' '' \<notin> set ((if sg then ''-'' else []) @ ds @ ''.'' @ [d1, d2])"
    using a d not_digit(1) by auto
  show "CHR ''m'' \<notin> set ((if sg then ''-'' else []) @ ds @ ''.'' @ [d1, d2])"
    using a d not_digit(2) by auto
  show "(if sg then ''-'' else []) @ ds @ ''.'' @ [d1, d2] \<noteq> []"
    by simp
  have hd_ds: "is_digit (hd ds)"
    using ds by (cases ds) auto
  have h: "hd ((if sg then ''-'' else []) @ ds @ ''.'' @ [d1, d2]) = (if sg then CHR ''-'' else hd ds)"
    using ds by (cases ds) auto
  show "hd ((if sg then ''-'' else []) @ ds @ ''.'' @ [d1, d2]) \<noteq> CHR ''N''"
    unfolding h using hd_ds not_digit(3) by auto
  show "\<not> is_space (hd ((if sg then ''-'' else []) @ ds @ ''.'' @ [d1, d2]))"
    unfolding h using hd_ds is_digit_simps(4) by (auto simp: is_space_def)
qed

lemma convert_value_amount:
  assumes ds: "list_all is_digit ds" "ds \<noteq> []" and d: "is_digit d1" "is_digit d2"
  shows "convert_value ((if sg then ''-'' else []) @ ds @ ''.'' @ [d1, d2] @ marker_text mk) =
           (if mk = DR then ''-'' else []) @ (if sg then ''-'' else []) @ ds @ ''.'' @ [d1, d2]"
proof -
  let ?n = "(if sg then ''-'' else []) @ ds @ ''.'' @ [d1, d2]"
  note p = number_text_props[OF ds d, of sg]
  have rep: "replace ''-minus'' ''-'' ?n = ?n"
    by (rule replace_absent[where c = "CHR ''m''"]) (use p(2) in auto)
  have ne: "?n @ marker_text mk \<noteq> ''N/A''"
    using p(3,4) by (cases "?n") auto
  have ne2: "?n @ marker_text mk \<noteq> []"
    using p(3) by simp
  have sp: "split_on (CHR '' '') (?n @ marker_text mk) @ [[]] =
             (case mk of NoMarker \<Rightarrow> [?n, []] | CR \<Rightarrow> [?n, ''CR'', []] | DR \<Rightarrow> [?n, ''DR'', []])"
  proof (cases mk)
    case NoMarker
    then show ?thesis
      using split_on_notin[OF p(1)] by (simp add: marker_text_def)
  next
    case CR
    have "split_on (CHR '' '') (?n @ CHR '' '' # ''CR'') = ?n # split_on (CHR '' '') ''CR''"
      by (rule split_on_append[OF p(1)])
    then show ?thesis
      using CR by (simp add: marker_text_def)
  next
    case DR
    have "split_on (CHR '' '') (?n @ CHR '' '' # ''DR'') = ?n # split_on (CHR '' '') ''DR''"
      by (rule split_on_append[OF p(1)])
    then show ?thesis
      using DR by (simp add: marker_text_def)
  qed
  have "convert_value (?n @ marker_text mk) = (if mk = DR then ''-'' else []) @ ?n"
    unfolding convert_value_def Let_def sp using ne ne2 rep
    by (cases mk) (simp_all del: append_assoc)
  then show ?thesis by simp
qed

lemma clean_value_amount:
  assumes w: "list_all (\<lambda>c. is_digit c \<or> c \<in> set ''+,$'') w" "filter is_digit w \<noteq> []"
    and d: "is_digit d1" "is_digit d2"
  shows "clean_value (Some (amount_text lead w d1 d2 mk)) =
           (if lead then ''-'' else []) @ filter is_digit w @ ''.'' @ [d1, d2] @ marker_text mk"
proof -
  let ?x = "amount_text lead w d1 d2 mk"
  let ?y = "(if lead then ''-'' else []) @ filter is_digit w @ ''.'' @ [d1, d2] @ marker_text mk"
  have wne: "w \<noteq> []" using w(2) by auto
  have wa: "\<forall>c \<in> set w. is_digit c \<or> c \<in> set ''+,$''"
    using w(1) by (simp add: list_all_iff)
  have xne: "?x \<noteq> []"
    by (simp add: amount_text_def)
  have nl: "CHR 0x0A \<notin> set ?x"
    using wa d not_digit(5) by (cases mk) (auto simp: amount_text_def marker_text_def)
  have hdx: "\<not> is_space (hd ?x)"
  proof (cases lead)
    case True
    then show ?thesis by (simp add: amount_text_def is_space_def)
  next
    case False
    then have "hd ?x = hd w" using wne by (cases w) (auto simp: amount_text_def)
    moreover have "hd w \<in> set w" using wne by simp
    ultimately have "is_digit (hd ?x) \<or> hd ?x \<in> set ''+,$''" using wa by simp
    then show ?thesis using is_digit_simps(4) by (auto simp: is_space_def)
  qed
  have lastx: "\<not> is_space (last ?x)"
    using d is_digit_simps(4) by (cases mk) (auto simp: amount_text_def marker_text_def is_space_def)
  have sx: "strip ?x = ?x"
    by (rule strip_id[OF xne hdx lastx])
  have fx: "filter (\<lambda>c. c \<notin> set ''+,$'') ?x = ?y"
    using filter_separators[OF w(1)] d is_digit_simps(7,8,9)
    by (cases mk) (auto simp: amount_text_def marker_text_def)
  have dsd: "list_all is_digit (filter is_digit w)"
    by (simp add: list_all_iff)
  note p = number_text_props[OF dsd w(2) d, of lead]
  have yne: "?y \<noteq> []" by simp
  have hdy: "\<not> is_space (hd ?y)"
  proof -
    have "hd ?y = hd ((if lead then ''-'' else []) @ filter is_digit w @ ''.'' @ [d1, d2])"
      using w(2) by (cases lead; cases "filter is_digit w") auto
    then show ?thesis using p(5) by simp
  qed
  have lasty: "\<not> is_space (last ?y)"
    using d is_digit_simps(4) by (cases mk) (auto simp: marker_text_def is_space_def)
  have sy: "strip ?y = ?y"
    by (rule strip_id[OF yne hdy lasty])
  have "?x \<noteq> []" by (rule xne)
  then show ?thesis
    unfolding clean_value_def Let_def
    using split_on_notin[OF nl] sx fx sy by simp
qed

lemma NABNumber_new_amount:
  assumes w: "list_all (\<lambda>c. is_digit c \<or> c \<in> set ''+,$'') w" "filter is_digit w \<noteq> []"
    and d: "is_digit d1" "is_digit d2"
    and one: "\<not> (lead \<and> mk = DR)"
  shows "NABNumber_new (Some (amount_text lead w d1 d2 mk)) =
           Inr (Finite (lead \<or> mk = DR) (str_int (filter is_digit w @ [d1, d2])) (- 2))"
proof -
  have dsd: "list_all is_digit (filter is_digit w)"
    by (simp add: list_all_iff)
  have cv: "convert_value (clean_value (Some (amount_text lead w d1 d2 mk))) =
              (if lead \<or> mk = DR then ''-'' else []) @ filter is_digit w @ ''.'' @ [d1, d2]"
    unfolding clean_value_amount[OF w d] convert_value_amount[OF dsd w(2) d]
    using one by auto
  show ?thesis
    unfolding NABNumber_new_def cv by (rule Decimal_new_two_decimals[OF dsd w(2) d])
qed

lemma strip_rjust:
  assumes "s \<noteq> []" "\<not> is_space (hd s)" "\<not> is_space (last s)"
  shows "strip (rjust n s) = s"
proof -
  have "dropWhile is_space (replicate (n - length s) (CHR '' '') @ s) = dropWhile is_space s"
    by (induction "n - length s" arbitrary: n) (auto simp: is_space_def dropWhile_append)
  then have "lstrip (rjust n s) = s"
    using assms by (simp add: lstrip_def rjust_def dropWhile_eq_self_iff)
  moreover have "rstrip s = s"
  proof -
    have "dropWhile is_space (rev s) = rev s"
      using assms by (simp add: dropWhile_eq_self_iff hd_rev)
    then show ?thesis by (simp add: rstrip_def)
  qed
  ultimately show ?thesis
    by (simp add: strip_def)
qed

lemma round_trip_general:
  assumes w: "list_all (\<lambda>c. is_digit c \<or> c \<in> set ''+,$'') w" "filter is_digit w \<noteq> []"
    and d: "is_digit d1" "is_digit d2"
    and one: "\<not> (lead \<and> mk = DR)"
  shows "\<exists>v. NABNumber_new (Some (amount_text lead w d1 d2 mk)) = Inr v \<and>
              NABNumber_str v = rjust 6 (canonical_amount (lead \<or> mk = DR) (filter is_digit w) d1 d2) \<and>
              strip (NABNumber_str v) = canonical_amount (lead \<or> mk = DR) (filter is_digit w) d1 d2"
proof -
  let ?ds = "filter is_digit w"
  let ?v = "Finite (lead \<or> mk = DR) (str_int (?ds @ [d1, d2])) (- 2)"
  let ?c = "canonical_amount (lead \<or> mk = DR) ?ds d1 d2"
  have dsd: "list_all is_digit ?ds"
    by (simp add: list_all_iff)
  have p: "NABNumber_new (Some (amount_text lead w d1 d2 mk)) = Inr ?v"
    by (rule NABNumber_new_amount[OF w d one])
  have s: "NABNumber_str ?v = rjust 6 ?c"
    unfolding NABNumber_str_def canonical_amount_def
    by (rule format_two_decimals[OF dsd w(2) d])
  have sd: "list_all is_digit (str_int ?ds)"
    by (rule str_int_digits[OF dsd])
  note q = number_text_props[OF sd str_int_nonempty d, of "lead \<or> mk = DR"]
  have cne: "?c \<noteq> []"
    by (simp add: canonical_amount_def)
  have hc: "\<not> is_space (hd ?c)"
    using q(5) by (simp add: canonical_amount_def)
  have lc: "\<not> is_space (last ?c)"
    using d by (simp add: canonical_amount_def is_digit_simps)
  have "strip (rjust 6 ?c) = ?c"
    by (rule strip_rjust[OF cne hc lc])
  then show ?thesis
    using p s by simp
qed

section \<open>Claims about MoneyAmount\<close>

text \<open>
  Claim C8, as amended. For every valid two-decimal textual amount (an optional minus
  sign, digits with the separators \<open>+\<close>, \<open>,\<close>, \<open>$\<close>, a point, two digits, an optional
  marker \<open>CR\<close> or \<open>DR\<close>, with not both a minus sign and \<open>DR\<close>), parsing succeeds
  and the string rendering of the result is the canonical two-decimal form of the amount
  right-justified to a width of six characters; stripped of the padding it is the
  canonical form. A marker \<open>DR\<close> negates: \<open>120.00 DR\<close> renders as \<open>-120.00\<close>.
\<close>

theorem parse_str_round_trip:
  assumes "list_all (\<lambda>c. is_digit c \<or> c \<in> set ''+,$'') w" "filter is_digit w \<noteq> []"
    and "is_digit d1" "is_digit d2"
    and "\<not> (lead \<and> mk = DR)"
  shows "(\<exists>v. NABNumber_new (Some (amount_text lead w d1 d2 mk)) = Inr v \<and>
              NABNumber_str v = rjust 6 (canonical_amount (lead \<or> mk = DR) (filter is_digit w) d1 d2) \<and>
              strip (NABNumber_str v) = canonical_amount (lead \<or> mk = DR) (filter is_digit w) d1 d2)
       \<and> NABNumber_new (Some ''120.00 DR'') = Inr (Finite True ''12000'' (- 2))
       \<and> NABNumber_str (Finite True ''12000'' (- 2)) = ''-120.00''"
proof -
  have "NABNumber_new (Some ''120.00 DR'') = Inr (Finite True ''12000'' (- 2))
       \<and> NABNumber_str (Finite True ''12000'' (- 2)) = ''-120.00''"
    by code_simp
  then show ?thesis
    using round_trip_general[OF assms] by blast
qed

text \<open>The theorem at the text \<open>$1,234.50 DR\<close>.\<close>

theorem round_trip_witness:
  "list_all (\<lambda>c. is_digit c \<or> c \<in> set ''+,$'') ''$1,234'' \<and> filter is_digit ''$1,234'' \<noteq> [] \<and>
   is_digit (CHR ''5'') \<and> is_digit (CHR ''0'') \<and>
   (\<exists>v. NABNumber_new (Some ''$1,234.50 DR'') = Inr v \<and> NABNumber_str v = ''-1234.50'')"
proof -
  have h1: "list_all (\<lambda>c. is_digit c \<or> c \<in> set ''+,$'') ''$1,234''"
    by (simp add: is_digit_def)
  have h2: "filter is_digit ''$1,234'' \<noteq> []"
    by (simp add: is_digit_def)
  have h3: "is_digit (CHR ''5'')" and h4: "is_digit (CHR ''0'')"
    by (simp_all add: is_digit_def)
  have h5: "\<not> (False \<and> DR = DR)"
    by simp
  have t: "amount_text False ''$1,234'' (CHR ''5'') (CHR ''0'') DR = ''$1,234.50 DR''"
    by (simp add: amount_text_def marker_text_def)
  have c: "rjust 6 (canonical_amount (False \<or> DR = DR) (filter is_digit ''$1,234'') (CHR ''5'') (CHR ''0''))
             = ''-1234.50''"
    by (simp add: rjust_def canonical_amount_def str_int_def is_digit_def)
  from parse_str_round_trip[OF h1 h2 h3 h4 h5]
  have "\<exists>v. NABNumber_new (Some ''$1,234.50 DR'') = Inr v \<and> NABNumber_str v = ''-1234.50''"
    unfolding t c by blast
  then show ?thesis
    using h1 h2 h3 h4 by blast
qed

text \<open>
  The claim as stated fails at \<open>5.00\<close>: the rendering is \<open>5.00\<close> after two spaces, not
  the canonical form itself.
\<close>

theorem str_padded_counterexample:
  "NABNumber_new (Some ''5.00'') = Inr (Finite False ''500'' (- 2)) \<and>
   NABNumber_str (Finite False ''500'' (- 2)) = ''  5.00'' \<and>
   canonical_amount False ''5'' (CHR ''0'') (CHR ''0'') = ''5.00''"
  by code_simp




text \<open>
  Claim C6 at the amounts 120.00 and 5.00, and at 1.00 and 0.01: the context's precision
  is two significant digits, so the sums are 1.2E+2 and 1.0, which render as
  \<open>120.00\<close> and \<open>1.00\<close>, not the exact sums 125.00 and 1.01.
\<close>

theorem add_two_significant_digits:
  "NABNumber_new (Some ''120.00'') = Inr (Finite False ''12000'' (- 2)) \<and>
   NABNumber_new (Some ''5.00'') = Inr (Finite False ''500'' (- 2)) \<and>
   NABNumber_add (Finite False ''12000'' (- 2)) (Finite False ''500'' (- 2)) = Inr (Finite False ''12'' 1) \<and>
   NABNumber_str (Finite False ''12'' 1) = ''120.00'' \<and>
   NABNumber_new (Some ''1.00'') = Inr (Finite False ''100'' (- 2)) \<and>
   NABNumber_new (Some ''0.01'') = Inr (Finite False ''1'' (- 2)) \<and>
   NABNumber_add (Finite False ''100'' (- 2)) (Finite False ''1'' (- 2)) = Inr (Finite False ''10'' (- 1)) \<and>
   NABNumber_str (Finite False ''10'' (- 1)) = ''  1.00''"
  by code_simp

section \<open>Rows: the detail blob, the category rules and the matching\<close>

lemma bind_Inr_iff: "bind m f = Inr y \<longleftrightarrow> (\<exists>x. m = Inr x \<and> f x = Inr y)"
  by (cases m) (simp_all add: bind_def)




lemma bind_Inr_right: "bind m Inr = m"
  by (cases m) (simp_all add: bind_def)

lemma load_rules_append:
  "load_rules m (a @ b) = bind (load_rules m a) (\<lambda>m'. load_rules m' b)"
proof (induction a arbitrary: m)
  case Nil
  then show ?case by (simp add: bind_def)
next
  case (Cons line ls)
  show ?case
  proof (cases "strip line = []")
    case True
    then show ?thesis using Cons.IH by simp
  next
    case False
    show ?thesis
    proof (cases "\<exists>p c. split_on (CHR ''|'') (strip line) = [p, c]")
      case True
      then obtain p c where "split_on (CHR ''|'') (strip line) = [p, c]" by blast
      then show ?thesis using False Cons.IH by simp
    next
      case nt: False
      have "load_rules m (line # ls @ b) = Inl ValueError" "load_rules m (line # ls) = Inl ValueError"
        using False nt by (auto split: list.splits)
      then show ?thesis by (simp add: bind_def)
    qed
  qed
qed

lemma payee_category_map_both_files:
  "payee_category_map fs nick =
     load_rules [] (file_lines fs (''PayeeCategories-'' @ nick @ ''.txt'') @ file_lines fs ''PayeeCategories.txt'')"
  unfolding payee_category_map_def rule_files_def load_rules_append file_lines_def
  by (simp add: bind_Inr_right bind_def split: option.splits sum.splits)

lemma map_of_dict_set: "map_of (dict_set k v al) = (map_of al)(k \<mapsto> v)"
proof (cases "k \<in> set (map fst al)")
  case False
  then have n: "map_of al k = None"
    by (simp add: map_of_eq_None_iff)
  have "([k \<mapsto> v] ++ map_of al) x = ((map_of al)(k \<mapsto> v)) x" for x
    using n by (cases "x = k") (auto simp: map_add_def split: option.splits)
  then have "[k \<mapsto> v] ++ map_of al = (map_of al)(k \<mapsto> v)"
    by (rule ext)
  then show ?thesis
    using False by (simp add: dict_set_def)
next
  case True
  have pt: "map_of (map (\<lambda>(k', v'). if k' = k then (k', v) else (k', v')) al) x =
          (if x = k then (case map_of al k of None \<Rightarrow> None | Some u \<Rightarrow> Some v) else map_of al x)" for x
    by (induction al) auto
  obtain u where "map_of al k = Some u"
    using True by (metis map_of_eq_None_iff not_Some_eq set_map)
  then have "map_of (map (\<lambda>(k', v'). if k' = k then (k', v) else (k', v')) al) x = ((map_of al)(k \<mapsto> v)) x" for x
    by (simp add: pt)
  then have "map_of (map (\<lambda>(k', v'). if k' = k then (k', v) else (k', v')) al) = (map_of al)(k \<mapsto> v)"
    by (rule ext)
  then show ?thesis
    using True by (simp add: dict_set_def)
qed

lemma load_rules_map_of:
  assumes "load_rules m ls = Inr m'"
  shows "map_of m' = map_of m ++ map_of (rev (parsed_rules ls))"
  using assms
proof (induction ls arbitrary: m)
  case Nil
  then show ?case by (simp add: parsed_rules_def)
next
  case (Cons line ls)
  show ?case
  proof (cases "strip line = []")
    case True
    then show ?thesis using Cons by (simp add: parsed_rules_def)
  next
    case False
    then obtain p c where pc: "split_on (CHR ''|'') (strip line) = [p, c]"
      and rest: "load_rules (dict_set p c m) ls = Inr m'"
      using Cons.prems by (auto split: list.splits)
    have pr: "parsed_rules (line # ls) = (p, c) # parsed_rules ls"
      using False pc by (simp add: parsed_rules_def)
    have ih: "map_of m' = (map_of m)(p \<mapsto> c) ++ map_of (rev (parsed_rules ls))"
      using Cons.IH[OF rest] unfolding map_of_dict_set .
    have "((map_of m)(p \<mapsto> c) ++ map_of (rev (parsed_rules ls))) x =
          (map_of m ++ map_of (rev ((p, c) # parsed_rules ls))) x" for x
      by (simp add: map_add_def split: option.splits)
    then have "(map_of m)(p \<mapsto> c) ++ map_of (rev (parsed_rules ls)) =
          map_of m ++ map_of (rev ((p, c) # parsed_rules ls))"
      by (rule ext)
    then show ?thesis
      unfolding pr ih .
  qed
qed

lemma first_match_find:
  "first_match rx_match items field = map_option snd (find (\<lambda>(k, v). rx_match k field) items)"
  by (induction items) auto

lemma process_row_category:
  assumes "process_row rx_match rx_sub items names row = Inr (Some t)"
  shows "t_category t =
           (case categorise rx_match items [case t_payee t of None \<Rightarrow> [] | Some p \<Rightarrow> p, t_memo t] of
              None \<Rightarrow> ''Unspecified'' | Some v \<Rightarrow> v)"
  using assms
  by (auto simp: process_row_def bind_Inr_iff Let_def split: if_splits prod.splits option.splits)

lemma startswith_iff: "startswith s key \<longleftrightarrow> (\<exists>b. s = key @ b)"
  unfolding startswith_def
  by (metis append_eq_conv_conj append_take_drop_id)

lemma contains_iff: "contains s key \<longleftrightarrow> (\<exists>a b. s = a @ key @ b)"
proof (induction s)
  case Nil
  then show ?case by auto
next
  case (Cons c cs)
  show ?case
  proof
    assume "contains (c # cs) key"
    then consider "startswith (c # cs) key" | "contains cs key" by auto
    then show "\<exists>a b. c # cs = a @ key @ b"
    proof cases
      case 1
      then obtain b where "c # cs = key @ b" using startswith_iff by blast
      then have "c # cs = [] @ key @ b" by simp
      then show ?thesis by blast
    next
      case 2
      then obtain a b where "cs = a @ key @ b" using Cons.IH by blast
      then have "c # cs = (c # a) @ key @ b" by simp
      then show ?thesis by blast
    qed
  next
    assume "\<exists>a b. c # cs = a @ key @ b"
    then obtain a b where ab: "c # cs = a @ key @ b" by blast
    show "contains (c # cs) key"
    proof (cases a)
      case Nil
      then have "startswith (c # cs) key" using ab startswith_iff by auto
      then show ?thesis by simp
    next
      case (Cons x xs)
      then have "cs = xs @ key @ b" using ab by simp
      then have "contains cs key" using Cons.IH by blast
      then show ?thesis by simp
    qed
  qed
qed

section \<open>Claims about rows\<close>

text \<open>
  Claim C5 at memos that begin with the prefixes: \<open>str.replace\<close> looks for the
  patterns as literal texts, so the payee is the memo unchanged. The empty memo gives
  \<open>None\<close>.
\<close>

theorem payee_keeps_prefix:
  "payee_of_memo ''INTERNET BPAY TELSTRA'' = Some ''INTERNET BPAY TELSTRA'' \<and>
   payee_of_memo ''INTERNET TRANSFER RENT'' = Some ''INTERNET TRANSFER RENT'' \<and>
   payee_of_memo ''FEES ACCOUNT'' = Some ''FEES ACCOUNT'' \<and>
   payee_of_memo ''V1234 12:30 COFFEE'' = Some ''V1234 12:30 COFFEE'' \<and>
   payee_of_memo [] = None"
  by code_simp




text \<open>
  Claim C3, as amended. The category rules are read from both rule files, the
  account's own file first and the shared file after it, each when it exists: the
  mapping is the one loaded from the lines of the first followed by the lines of the
  second, a rule of the shared file replaces a rule of the account's file with the same
  pattern, and the mapping is empty when neither file exists. The category of a
  transaction is the category of the first rule, in the order the mapping is iterated,
  whose pattern matches the payee; if there is none, of the first rule whose pattern
  matches the memo; if there is none, \<open>Unspecified\<close>. For a pattern without special
  characters the match is containment in the first line of the field, without case.
\<close>

theorem category_rules:
  "payee_category_map fs nick =
     load_rules [] (file_lines fs (''PayeeCategories-'' @ nick @ ''.txt'') @ file_lines fs ''PayeeCategories.txt'')
   \<and> (payee_category_map fs nick = Inr m \<longrightarrow>
        (\<forall>k. map_of m k =
           (case map_of (rev (parsed_rules (file_lines fs ''PayeeCategories.txt''))) k of
              Some v \<Rightarrow> Some v
            | None \<Rightarrow> map_of (rev (parsed_rules (file_lines fs (''PayeeCategories-'' @ nick @ ''.txt'')))) k)))
   \<and> (fs (''PayeeCategories-'' @ nick @ ''.txt'') = None \<and> fs ''PayeeCategories.txt'' = None \<longrightarrow>
        payee_category_map fs nick = Inr [])
   \<and> (process_row rx_match rx_sub items names row = Inr (Some t) \<longrightarrow>
        t_category t =
          (case find (\<lambda>(k, v). rx_match k (case t_payee t of None \<Rightarrow> [] | Some p \<Rightarrow> p)) items of
             Some kv \<Rightarrow> snd kv
           | None \<Rightarrow> (case find (\<lambda>(k, v). rx_match k (t_memo t)) items of
                        Some kv \<Rightarrow> snd kv
                      | None \<Rightarrow> ''Unspecified'')))
   \<and> (rx_literal re_key field \<longleftrightarrow>
        (\<exists>a b. lower (takeWhile (\<lambda>c. c \<noteq> CHR 0x0A) field) = a @ lower re_key @ b))"
proof (intro conjI impI allI)
  show "payee_category_map fs nick =
     load_rules [] (file_lines fs (''PayeeCategories-'' @ nick @ ''.txt'') @ file_lines fs ''PayeeCategories.txt'')"
    by (rule payee_category_map_both_files)
next
  fix k
  assume "payee_category_map fs nick = Inr m"
  then have "load_rules [] (file_lines fs (''PayeeCategories-'' @ nick @ ''.txt'') @ file_lines fs ''PayeeCategories.txt'') = Inr m"
    by (simp add: payee_category_map_both_files)
  from load_rules_map_of[OF this]
  have "map_of m = map_of (rev (parsed_rules (file_lines fs (''PayeeCategories-'' @ nick @ ''.txt'') @ file_lines fs ''PayeeCategories.txt'')))"
    by simp
  then show "map_of m k =
           (case map_of (rev (parsed_rules (file_lines fs ''PayeeCategories.txt''))) k of
              Some v \<Rightarrow> Some v
            | None \<Rightarrow> map_of (rev (parsed_rules (file_lines fs (''PayeeCategories-'' @ nick @ ''.txt'')))) k)"
    by (simp add: parsed_rules_def map_add_def split: option.splits)
next
  assume "fs (''PayeeCategories-'' @ nick @ ''.txt'') = None \<and> fs ''PayeeCategories.txt'' = None"
  then show "payee_category_map fs nick = Inr []"
    by (simp add: payee_category_map_def rule_files_def)
next
  assume "process_row rx_match rx_sub items names row = Inr (Some t)"
  from process_row_category[OF this]
  show "t_category t =
          (case find (\<lambda>(k, v). rx_match k (case t_payee t of None \<Rightarrow> [] | Some p \<Rightarrow> p)) items of
             Some kv \<Rightarrow> snd kv
           | None \<Rightarrow> (case find (\<lambda>(k, v). rx_match k (t_memo t)) items of
                        Some kv \<Rightarrow> snd kv
                      | None \<Rightarrow> ''Unspecified''))"
    by (simp add: first_match_find split: option.splits)
next
  show "rx_literal re_key field \<longleftrightarrow>
        (\<exists>a b. lower (takeWhile (\<lambda>c. c \<noteq> CHR 0x0A) field) = a @ lower re_key @ b)"
    by (simp add: rx_literal_def contains_iff)
qed

text \<open>The theorem at the example files and the row of the coffee shop.\<close>

theorem category_rules_witness:
  "payee_category_map ex_fs ''acc'' = Inr [(''coffee'', ''Dining''), (''tea'', ''Drinks'')] \<and>
   (\<exists>t. process_row rx_literal ex_sub [(''coffee'', ''Dining''), (''tea'', ''Drinks'')]
           (var_names ex_account) ex_row_debit = Inr (Some t) \<and> t_category t = ''Dining'')"
proof -
  let ?t = "\<lparr>t_date = \<lparr>year = 2024, month = 1, day = 15\<rparr>, t_type = ''EFTPOS'', t_reference = None,
             t_payee = Some ''COFFEE SHOP'', t_memo = ''COFFEE SHOP'',
             t_amount = Finite True ''5000'' (- 2), t_category = ''Dining'',
             t_balance = Finite False ''10000'' (- 2)\<rparr>"
  have m: "payee_category_map ex_fs ''acc'' = Inr [(''coffee'', ''Dining''), (''tea'', ''Drinks'')]"
    by code_simp
  have p: "process_row rx_literal ex_sub [(''coffee'', ''Dining''), (''tea'', ''Drinks'')]
           (var_names ex_account) ex_row_debit = Inr (Some ?t)"
    by code_simp
  have f: "(case find (\<lambda>(k, v). rx_literal k ''COFFEE SHOP'') [(''coffee'', ''Dining''), (''tea'', ''Drinks'')] of
             Some kv \<Rightarrow> snd kv
           | None \<Rightarrow> (case find (\<lambda>(k, v). rx_literal k ''COFFEE SHOP'') [(''coffee'', ''Dining''), (''tea'', ''Drinks'')] of
                        Some kv \<Rightarrow> snd kv
                      | None \<Rightarrow> ''Unspecified'')) = ''Dining''"
    by code_simp
  from category_rules[of ex_fs "''acc''" _ rx_literal ex_sub "[(''coffee'', ''Dining''), (''tea'', ''Drinks'')]"
      "var_names ex_account" ex_row_debit ?t]
  have "process_row rx_literal ex_sub [(''coffee'', ''Dining''), (''tea'', ''Drinks'')]
           (var_names ex_account) ex_row_debit = Inr (Some ?t) \<longrightarrow>
        t_category ?t =
          (case find (\<lambda>(k, v). rx_literal k (case t_payee ?t of None \<Rightarrow> [] | Some p \<Rightarrow> p))
                  [(''coffee'', ''Dining''), (''tea'', ''Drinks'')] of
             Some kv \<Rightarrow> snd kv
           | None \<Rightarrow> (case find (\<lambda>(k, v). rx_literal k (t_memo ?t)) [(''coffee'', ''Dining''), (''tea'', ''Drinks'')] of
                        Some kv \<Rightarrow> snd kv
                      | None \<Rightarrow> ''Unspecified''))"
    by blast
  with p have "t_category ?t = ''Dining''"
    by simp
  then show ?thesis
    using m p by blast
qed

text \<open>
  The claim as stated fails where both files exist: the rule of the shared file is in
  the mapping next to the account's rule, and a row of the tea house gets the category
  \<open>Drinks\<close> from it, where the account's file alone gives \<open>Unspecified\<close>.
\<close>

theorem both_files_counterexample:
  "payee_category_map ex_fs ''acc'' = Inr [(''coffee'', ''Dining''), (''tea'', ''Drinks'')] \<and>
   rules_of_one_file ex_fs ''acc'' = Inr [(''coffee'', ''Dining'')] \<and>
   map_sum id (map_option t_category)
     (process_row rx_literal ex_sub [(''coffee'', ''Dining''), (''tea'', ''Drinks'')]
        (var_names ex_account) ex_row_five) = Inr (Some ''Drinks'') \<and>
   map_sum id (map_option t_category)
     (process_row rx_literal ex_sub [(''coffee'', ''Dining'')]
        (var_names ex_account) ex_row_five) = Inr (Some ''Unspecified'')"
  by code_simp

section \<open>Extraction and export\<close>












section \<open>Claims about the Account\<close>




text \<open>
  Claim C7 at a row with one cell, the newest of two rows: \<open>process_row\<close> returns
  \<open>None\<close> for it, and \<open>download_transactions\<close> appends the \<open>None\<close> to the
  sequence, where it ends as the last element; the closing balance falls back to zero,
  and the export raises \<open>AttributeError\<close> at the \<open>None\<close>.
\<close>

theorem skipped_row_kept:
  "download_transactions rx_literal ex_sub [] ex_account False [ex_row_short, ex_row_credit] ex_end_date =
     Inr (ex_account\<lparr>transactions :=
            [Some \<lparr>t_date = \<lparr>year = 2024, month = 1, day = 10\<rparr>, t_type = ''CREDIT'',
                   t_reference = None, t_payee = Some ''SALARY'', t_memo = ''SALARY'',
                   t_amount = Finite False ''20000'' (- 2), t_category = ''Unspecified'',
                   t_balance = Finite False ''15000'' (- 2)\<rparr>,
             None],
            closing_balance := zero_amount, closing_balance_date := ex_end_date\<rparr>, zero_amount) \<and>
   generate_qif rx_literal ex_sub [] ex_account False [ex_row_short, ex_row_credit] ex_end_date =
     Inl AttributeError"
  by code_simp

end
